theory Spec2Isabelle
  imports Main "HOL-Library.Char_ord" "HOL-Library.List_Lexorder" "HOL-Library.Multiset"
begin

section \<open>The job store of scripts/jobs.py\<close>

text \<open>
  The two SQLite tables of \<^verbatim>\<open>init()\<close>. A row of \<^verbatim>\<open>jobs\<close> and a row of
  \<^verbatim>\<open>notifications\<close> are records with one field per column; a nullable column is an
  \<open>option\<close>. Text columns are strings, compared byte by byte as SQLite's default
  collation does (the lexicographic order of \<open>char list\<close>). A table is the list of its
  rows in insertion order, together with the counter that \<^verbatim>\<open>AUTOINCREMENT\<close> keeps in
  \<^verbatim>\<open>sqlite_sequence\<close>.
\<close>

record job =
  job_id :: nat
  command :: string
  label :: "string option"
  status :: string
  pid :: "int option"
  created_at :: string
  finished_at :: "string option"
  exit_code :: "int option"
  output_file :: "string option"
  error :: "string option"

record notification =
  n_id :: nat
  n_job_id :: nat
  message :: string
  n_created_at :: string
  delivered :: int

record store =
  jobs :: "job list"
  jobs_seq :: nat
  notifications :: "notification list"
  notifications_seq :: nat

text \<open>The store after \<^verbatim>\<open>init()\<close> on a fresh directory: both tables exist and are empty.
  On a store that already has its tables \<^verbatim>\<open>init()\<close> changes nothing
  (\<^verbatim>\<open>CREATE TABLE IF NOT EXISTS\<close>), so the operations below start from the store as it is.\<close>

definition empty_store :: store where
  "empty_store = \<lparr>jobs = [], jobs_seq = 0, notifications = [], notifications_seq = 0\<rparr>"

text \<open>\<^verbatim>\<open>SELECT * FROM jobs WHERE id = ?\<close> followed by \<^verbatim>\<open>fetchone()\<close>.\<close>

definition select_job :: "store \<Rightarrow> nat \<Rightarrow> job option" where
  "select_job conn jid = find (\<lambda>r. job_id r = jid) (jobs conn)"

text \<open>\<^verbatim>\<open>UPDATE jobs SET ... WHERE id = ?\<close>: every row with that id is rewritten.\<close>

definition update_job :: "nat \<Rightarrow> (job \<Rightarrow> job) \<Rightarrow> store \<Rightarrow> store" where
  "update_job jid f conn =
     conn\<lparr>jobs := map (\<lambda>r. if job_id r = jid then f r else r) (jobs conn)\<rparr>"

text \<open>The rowid an \<^verbatim>\<open>AUTOINCREMENT\<close> table gives its next row: one more than the
  largest rowid the table has ever held.\<close>

definition next_rowid :: "nat \<Rightarrow> nat list \<Rightarrow> nat" where
  "next_rowid seq ids = Suc (fold max ids seq)"

definition insert_job :: "string \<Rightarrow> string option \<Rightarrow> string \<Rightarrow> store \<Rightarrow> nat \<times> store" where
  "insert_job cmd lbl now conn =
     (let jid = next_rowid (jobs_seq conn) (map job_id (jobs conn)) in
      (jid,
       conn\<lparr>jobs := jobs conn @
               [\<lparr>job_id = jid, command = cmd, label = lbl, status = ''running'', pid = None,
                 created_at = now, finished_at = None, exit_code = None,
                 output_file = None, error = None\<rparr>],
             jobs_seq := jid\<rparr>))"

text \<open>\<^verbatim>\<open>INSERT INTO notifications (job_id, message, created_at)\<close>; the column
  \<^verbatim>\<open>delivered\<close> takes its default 0. SQLite does not enforce the foreign key (the
  pragma is never switched on), so the insertion does not look at the jobs table.\<close>

definition insert_notification :: "nat \<Rightarrow> string \<Rightarrow> string \<Rightarrow> store \<Rightarrow> store" where
  "insert_notification jid msg now conn =
     (let nid = next_rowid (notifications_seq conn) (map n_id (notifications conn)) in
      conn\<lparr>notifications := notifications conn @
               [\<lparr>n_id = nid, n_job_id = jid, message = msg, n_created_at = now, delivered = 0\<rparr>],
           notifications_seq := nid\<rparr>)"

section \<open>The operating system, as the scripts observe it\<close>

text \<open>
  What the code asks of the operating system during one operation. Each field is the answer
  the call gives; a call that raises is \<open>None\<close> or \<open>False\<close>.
  \<^item> \<open>clock jid\<close>: the string \<^verbatim>\<open>now_iso()\<close> returns when it is called for the row
    with id \<open>jid\<close> (every operation reads the clock at most once per row);
  \<^item> \<open>kill0_ok p\<close>: \<^verbatim>\<open>os.kill(p, 0)\<close> returns without \<^verbatim>\<open>OSError\<close>;
  \<^item> \<open>getpgid p\<close>: the result of \<^verbatim>\<open>os.getpgid(p)\<close>, \<open>None\<close> when it raises;
  \<^item> \<open>killpg_ok g\<close>: \<^verbatim>\<open>os.killpg(g, SIGTERM)\<close> returns without \<^verbatim>\<open>OSError\<close>;
  \<^item> \<open>popen cmd\<close>: the pid of the process \<^verbatim>\<open>subprocess.Popen\<close> starts, \<open>None\<close> when it
    raises;
  \<^item> \<open>install_root\<close>: \<^verbatim>\<open>Path(__file__).parent.parent\<close>.
\<close>

record os_env =
  clock :: "nat \<Rightarrow> string"
  kill0_ok :: "int \<Rightarrow> bool"
  getpgid :: "int \<Rightarrow> int option"
  killpg_ok :: "int \<Rightarrow> bool"
  popen :: "string \<Rightarrow> int option"
  install_root :: string

text \<open>The exceptions the scripts meet, the system calls that reach other processes, and
  the lines the scripts print. A printed line is recorded by its format and the values put
  into it; an exception that nothing catches ends the command with its traceback.\<close>

datatype py_error = ValueError | OSError | UnicodeDecodeError

datatype syscall = Killpg int

datatype printed =
    NotFound nat
  | AlreadyStatus nat string
  | SentSigterm nat int
  | ProcessGone nat
  | JobCancelled nat
  | NoPending
  | Message string
  | Blank
  | NothingToClean
  | Cleaned nat
  | ShowJob job
  | ListedJob job
  | NoJobs
  | NoOutputFile nat
  | StderrOnly nat string
  | NoOutputYet nat
  | Output nat string string
  | Submitted nat int
  | Traceback py_error

section \<open>Status reconciliation\<close>

text \<open>\<^verbatim>\<open>check_and_update_status(conn, job)\<close>. Python's \<^verbatim>\<open>not job['pid']\<close> holds for a
  null pid and for the pid 0. The dictionary returned after a correction is a copy with only
  \<^verbatim>\<open>status\<close> changed; the completion time is written to the row alone.\<close>

definition check_and_update_status :: "os_env \<Rightarrow> store \<Rightarrow> job \<Rightarrow> store \<times> job" where
  "check_and_update_status env conn j =
     (if status j \<noteq> ''running'' then (conn, j)
      else case pid j of
        None \<Rightarrow> (conn, j)
      | Some p \<Rightarrow>
          if p = 0 then (conn, j)
          else if kill0_ok env p then (conn, j)
          else (update_job (job_id j)
                  (\<lambda>r. r\<lparr>status := ''done'', finished_at := Some (clock env (job_id j))\<rparr>) conn,
                j\<lparr>status := ''done''\<rparr>))"

definition get_job_status :: "os_env \<Rightarrow> nat \<Rightarrow> store \<Rightarrow> store \<times> printed list" where
  "get_job_status env jid conn =
     (case select_job conn jid of
        None \<Rightarrow> (conn, [NotFound jid])
      | Some row \<Rightarrow>
          (let (conn', j) = check_and_update_status env conn row in (conn', [ShowJob j])))"

section \<open>Cancellation\<close>

text \<open>\<^verbatim>\<open>cancel_job(job_id)\<close>: the new store, the signals sent, the lines printed.\<close>

definition cancel_job :: "os_env \<Rightarrow> nat \<Rightarrow> store \<Rightarrow> store \<times> syscall list \<times> printed list" where
  "cancel_job env jid conn =
     (case select_job conn jid of
        None \<Rightarrow> (conn, [], [NotFound jid])
      | Some j \<Rightarrow>
          if status j \<noteq> ''running'' then (conn, [], [AlreadyStatus jid (status j)])
          else
            (let (calls, lines) =
               (case pid j of
                  None \<Rightarrow> ([], [])
                | Some p \<Rightarrow>
                    if p = 0 then ([], [])
                    else (case getpgid env p of
                            None \<Rightarrow> ([], [ProcessGone jid])
                          | Some g \<Rightarrow>
                              if killpg_ok env g then ([Killpg g], [SentSigterm jid p])
                              else ([Killpg g], [ProcessGone jid])))
             in (update_job jid
                   (\<lambda>r. r\<lparr>status := ''cancelled'', finished_at := Some (clock env jid)\<rparr>) conn,
                 calls, lines @ [JobCancelled jid])))"

section \<open>Notification delivery\<close>

text \<open>\<^verbatim>\<open>get_notifications()\<close>. \<^verbatim>\<open>ORDER BY created_at\<close> is a sort on the text column;
  rows with equal keys keep their table order here (SQLite leaves their order open).\<close>

definition pending :: "store \<Rightarrow> notification list" where
  "pending conn = sort_key n_created_at (filter (\<lambda>n. delivered n = 0) (notifications conn))"

definition mark_delivered :: "nat \<Rightarrow> store \<Rightarrow> store" where
  "mark_delivered nid conn =
     conn\<lparr>notifications :=
            map (\<lambda>n. if n_id n = nid then n\<lparr>delivered := 1\<rparr> else n) (notifications conn)\<rparr>"

fun deliver :: "notification list \<Rightarrow> store \<Rightarrow> store \<times> printed list" where
  "deliver [] conn = (conn, [])"
| "deliver (row # rows) conn =
     (let (conn', lines) = deliver rows (mark_delivered (n_id row) conn)
      in (conn', Message (message row) # Blank # lines))"

definition get_notifications :: "store \<Rightarrow> store \<times> printed list" where
  "get_notifications conn =
     (let rows = pending conn in
      if rows = [] then (conn, [NoPending]) else deliver rows conn)"

section \<open>Text and paths\<close>

text \<open>Strings are lists of characters with code points below 256, and the text of a file
  is the string Python reads from it (line ends already translated to \<^verbatim>\<open>\n\<close>).
  \<open>isspace\<close> is Python's \<^verbatim>\<open>str.isspace\<close> on those code points, and \<open>strip\<close> is
  \<^verbatim>\<open>str.strip()\<close>.\<close>

definition newline :: char where
  "newline = CHR 0x0A"

definition isspace :: "char \<Rightarrow> bool" where
  "isspace c = ((of_char c :: nat) \<in> set [9, 10, 11, 12, 13, 28, 29, 30, 31, 32, 133, 160])"

definition strip :: "string \<Rightarrow> string" where
  "strip s = rev (dropWhile isspace (rev (dropWhile isspace s)))"

text \<open>\<^verbatim>\<open>str(n)\<close> for the integers the scripts put into file names and messages.\<close>

fun str_nat :: "nat \<Rightarrow> string" where
  "str_nat n =
     (if n < 10 then [''0123456789'' ! n]
      else str_nat (n div 10) @ [''0123456789'' ! (n mod 10)])"

declare str_nat.simps [simp del]

definition str_int :: "int \<Rightarrow> string" where
  "str_int i = (if i < 0 then CHR ''-'' # str_nat (nat (- i)) else str_nat (nat i))"

text \<open>\<^verbatim>\<open>f.readlines()\<close>: the lines of a text, each with its line end.\<close>

fun readlines :: "string \<Rightarrow> string list" where
  "readlines [] = []"
| "readlines (c # cs) =
     (if c = newline then [c] # readlines cs
      else (case readlines cs of [] \<Rightarrow> [[c]] | l # ls \<Rightarrow> (c # l) # ls))"

text \<open>\<^verbatim>\<open>s.split('\n')\<close> and \<^verbatim>\<open>'\n'.join(lines)\<close>.\<close>

fun split_nl :: "string \<Rightarrow> string list" where
  "split_nl [] = [[]]"
| "split_nl (c # cs) =
     (if c = newline then [] # split_nl cs
      else (case split_nl cs of [] \<Rightarrow> [[c]] | l # ls \<Rightarrow> (c # l) # ls))"

fun join_nl :: "string list \<Rightarrow> string" where
  "join_nl [] = []"
| "join_nl [l] = l"
| "join_nl (l # ls) = l @ newline # join_nl ls"

text \<open>\<^verbatim>\<open>xs[-n:]\<close> for a positive \<open>n\<close>: the last \<open>n\<close> elements, all of them when there are
  fewer.\<close>

definition last_n :: "nat \<Rightarrow> 'a list \<Rightarrow> 'a list" where
  "last_n n xs = drop (length xs - n) xs"

text \<open>\<^verbatim>\<open>s.replace(old, new)\<close> for a non-empty \<open>old\<close>: every occurrence, left to right,
  without overlap.\<close>

function replace :: "string \<Rightarrow> string \<Rightarrow> string \<Rightarrow> string" where
  "replace old new [] = []"
| "replace old new (c # cs) =
     (if old \<noteq> [] \<and> take (length old) (c # cs) = old
      then new @ replace old new (drop (length old) (c # cs))
      else c # replace old new cs)"
  by pat_completeness auto
termination
  by (relation "measure (\<lambda>(old, new, s). length s)") (auto simp: Suc_le_eq)

text \<open>
  The file system is a map from the path of a regular file to what reading the file in text
  mode gives: its text, or \<^verbatim>\<open>UnicodeDecodeError\<close> when its bytes are not valid in the
  encoding (\<open>Undecodable\<close>). Paths are the
  strings \<^verbatim>\<open>str(Path(...))\<close> produces: components separated by single slashes, no
  trailing slash. On such a path \<open>path_name\<close> is \<^verbatim>\<open>Path.name\<close>, \<open>path_suffix\<close> is
  \<^verbatim>\<open>Path.suffix\<close> (the part of the name from its last dot, when that dot is neither the
  first nor the last character), and \<open>with_suffix\<close> is \<^verbatim>\<open>Path.with_suffix\<close>, which
  raises \<^verbatim>\<open>ValueError\<close> on an empty name.
\<close>

datatype content = Text string | Undecodable

type_synonym fs = "string \<rightharpoonup> content"

definition path_name :: "string \<Rightarrow> string" where
  "path_name p = rev (takeWhile (\<lambda>c. c \<noteq> CHR ''/'') (rev p))"

definition path_dir :: "string \<Rightarrow> string" where
  "path_dir p = rev (dropWhile (\<lambda>c. c \<noteq> CHR ''/'') (rev p))"

definition path_suffix :: "string \<Rightarrow> string" where
  "path_suffix name =
     (let ext = rev (takeWhile (\<lambda>c. c \<noteq> CHR ''.'') (rev name)) in
      if CHR ''.'' \<in> set name \<and> ext \<noteq> [] \<and> Suc (length ext) < length name
      then CHR ''.'' # ext else [])"

definition with_suffix :: "string \<Rightarrow> string \<Rightarrow> py_error + string" where
  "with_suffix p ext =
     (let name = path_name p in
      if name = [] then Inl ValueError
      else Inr (path_dir p @ take (length name - length (path_suffix name)) name @ ext))"

definition JOBS_DIR :: "os_env \<Rightarrow> string" where
  "JOBS_DIR env = install_root env @ ''/jobs''"

definition ARTIFACTS_DIR :: "os_env \<Rightarrow> string" where
  "ARTIFACTS_DIR env = JOBS_DIR env @ ''/artifacts''"

definition DB_PATH :: "os_env \<Rightarrow> string" where
  "DB_PATH env = JOBS_DIR env @ ''/jobs.db''"

definition job_out :: "os_env \<Rightarrow> nat \<Rightarrow> string" where
  "job_out env jid = ARTIFACTS_DIR env @ ''/job_'' @ str_nat jid @ ''.out''"

definition job_err :: "os_env \<Rightarrow> nat \<Rightarrow> string" where
  "job_err env jid = ARTIFACTS_DIR env @ ''/job_'' @ str_nat jid @ ''.err''"

definition watcher_path :: "os_env \<Rightarrow> nat \<Rightarrow> string" where
  "watcher_path env jid = ARTIFACTS_DIR env @ ''/watcher_'' @ str_nat jid @ ''.py''"

section \<open>The completion watcher\<close>

text \<open>
  A watcher process is the script \<^verbatim>\<open>submit_job\<close> writes, with its four substituted
  values. The whole system is the store, the files and the watcher processes started so far.
\<close>

record watcher =
  w_job_id :: nat
  w_pid :: int
  w_out_file :: string
  w_err_file :: string

record world =
  db :: store
  files :: fs
  watchers :: "watcher list"

text \<open>The polling loop. \<open>probe k\<close> is whether \<^verbatim>\<open>os.kill(PID, 0)\<close> succeeds at the
  \<open>k\<close>-th round; the loop leaves at the first round where it raises and need not end, so
  it runs on fuel: \<open>None\<close> is a loop still running when the fuel is spent.\<close>

fun poll :: "nat \<Rightarrow> (nat \<Rightarrow> bool) \<Rightarrow> nat \<Rightarrow> nat option" where
  "poll 0 probe k = None"
| "poll (Suc fuel) probe k = (if probe k then poll fuel probe (Suc k) else Some k)"

text \<open>The two reads of the script, each under a bare \<^verbatim>\<open>except\<close>: a file that is
  missing and a file that does not decode both take the handler. For the output the
  handler sets the preview to a notice; for the error artifact it is \<^verbatim>\<open>pass\<close>, which
  leaves \<^verbatim>\<open>err_text\<close> empty.\<close>

definition read_preview :: "fs \<Rightarrow> string \<Rightarrow> string" where
  "read_preview fs out_file =
     (case fs out_file of
        None \<Rightarrow> ''(could not read output)''
      | Some Undecodable \<Rightarrow> ''(could not read output)''
      | Some (Text text) \<Rightarrow>
          (let lines = readlines text in
           if lines = [] then ''(no output)'' else take 300 (concat (last_n 5 lines))))"

definition read_err_text :: "fs \<Rightarrow> string \<Rightarrow> string" where
  "read_err_text fs err_file =
     (case fs err_file of
        None \<Rightarrow> []
      | Some Undecodable \<Rightarrow> []
      | Some (Text text) \<Rightarrow> strip text)"

text \<open>The part of the script after the loop and the pause: it reads the two artifacts and
  writes the job row and the notification.\<close>

definition finalize :: "os_env \<Rightarrow> watcher \<Rightarrow> fs \<Rightarrow> store \<Rightarrow> store" where
  "finalize env wt fs conn =
     (let preview = read_preview fs (w_out_file wt);
          err_text = read_err_text fs (w_err_file wt);
          code = (if err_text \<noteq> [] then 1 else 0);
          status_word = (if err_text \<noteq> [] then ''finished with warnings'' else ''finished'');
          now = clock env (w_job_id wt);
          conn1 = update_job (w_job_id wt)
                    (\<lambda>r. r\<lparr>status := ''done'', finished_at := Some now, exit_code := Some code\<rparr>)
                    conn;
          conn2 = (if err_text \<noteq> []
                   then update_job (w_job_id wt) (\<lambda>r. r\<lparr>error := Some (take 500 err_text)\<rparr>) conn1
                   else conn1);
          msg = ''Job #'' @ str_nat (w_job_id wt) @ '' '' @ status_word @ ''.'' @ newline # preview
      in insert_notification (w_job_id wt) msg now conn2)"

definition run_watcher ::
  "nat \<Rightarrow> (nat \<Rightarrow> bool) \<Rightarrow> os_env \<Rightarrow> watcher \<Rightarrow> world \<Rightarrow> world option" where
  "run_watcher fuel probe env wt w =
     (case poll fuel probe 0 of
        None \<Rightarrow> None
      | Some k \<Rightarrow> Some (w\<lparr>db := finalize env wt (files w) (db w)\<rparr>))"

section \<open>Submission\<close>

text \<open>
  \<^verbatim>\<open>submit_job(command, label)\<close>. The row is inserted first; the two artifact files are
  opened for writing (created or emptied); the command is started; the pid and the output
  path are stored and the transaction is committed; the watcher script is written and
  started. When \<^verbatim>\<open>Popen\<close> raises, the exception leaves the function before the commit, so
  the store keeps no row, while the two files stay. The text of the watcher script is
  represented by the values substituted into it.
\<close>

definition watcher_script :: "os_env \<Rightarrow> watcher \<Rightarrow> string" where
  "watcher_script env wt =
     DB_PATH env @ newline # str_nat (w_job_id wt) @ newline # str_int (w_pid wt)
       @ newline # w_out_file wt @ newline # w_err_file wt"

definition submit_job ::
  "os_env \<Rightarrow> string \<Rightarrow> string option \<Rightarrow> world \<Rightarrow> (py_error + nat) \<times> world \<times> printed list" where
  "submit_job env cmd lbl w =
     (let jid = next_rowid (jobs_seq (db w)) (map job_id (jobs (db w)));
          (_, conn1) = insert_job cmd lbl (clock env jid) (db w);
          out = job_out env jid;
          err = job_err env jid;
          fs1 = (files w)(out \<mapsto> Text [], err \<mapsto> Text [])
      in case popen env cmd of
           None \<Rightarrow> (Inl OSError, w\<lparr>files := fs1\<rparr>, [])
         | Some p \<Rightarrow>
             (let conn2 = update_job jid (\<lambda>r. r\<lparr>pid := Some p, output_file := Some out\<rparr>) conn1;
                  wt = \<lparr>w_job_id = jid, w_pid = p, w_out_file = out, w_err_file = err\<rparr>
              in (Inr jid,
                  \<lparr>db = conn2,
                   files = fs1(watcher_path env jid \<mapsto> Text (watcher_script env wt)),
                   watchers = watchers w @ [wt]\<rparr>,
                  [Submitted jid p])))"

section \<open>Result and listing\<close>

text \<open>\<^verbatim>\<open>get_job_result(job_id, tail)\<close>: the row is reconciled first, which commits
  the correction, then the output artifact is read. Nothing but the reconciliation writes
  to the store. \<^verbatim>\<open>read_text()\<close> is not guarded here: on a file that does not decode
  the command ends with the traceback.\<close>

definition show_result :: "fs \<Rightarrow> nat \<Rightarrow> int \<Rightarrow> job \<Rightarrow> printed" where
  "show_result fs jid tail j =
     (case output_file j of
        None \<Rightarrow> NoOutputFile jid
      | Some f \<Rightarrow>
          if f = [] then NoOutputFile jid
          else (case fs f of
                  None \<Rightarrow> NoOutputFile jid
                | Some Undecodable \<Rightarrow> Traceback UnicodeDecodeError
                | Some (Text output) \<Rightarrow>
                    if strip output = [] then
                      (case fs (replace ''.out'' ''.err'' f) of
                         None \<Rightarrow> NoOutputYet jid
                       | Some Undecodable \<Rightarrow> Traceback UnicodeDecodeError
                       | Some (Text e) \<Rightarrow>
                           if strip e \<noteq> [] then StderrOnly jid (strip e) else NoOutputYet jid)
                    else Output jid (status j)
                           (if tail > 0 then join_nl (last_n (nat tail) (split_nl output))
                            else output)))"

definition get_job_result :: "os_env \<Rightarrow> nat \<Rightarrow> int \<Rightarrow> fs \<Rightarrow> store \<Rightarrow> store \<times> printed list" where
  "get_job_result env jid tail fs conn =
     (case select_job conn jid of
        None \<Rightarrow> (conn, [NotFound jid])
      | Some row \<Rightarrow>
          (let (conn', j) = check_and_update_status env conn row
           in (conn', [show_result fs jid tail j])))"

text \<open>\<^verbatim>\<open>list_jobs(limit)\<close>: \<^verbatim>\<open>ORDER BY id DESC LIMIT ?\<close>, where a negative limit is no
  limit; the rows are fetched at once and then reconciled one after the other.\<close>

definition recent_jobs :: "int \<Rightarrow> store \<Rightarrow> job list" where
  "recent_jobs limit conn =
     (let rows = rev (sort_key job_id (jobs conn)) in
      if limit < 0 then rows else take (nat limit) rows)"

fun reconcile_rows :: "os_env \<Rightarrow> job list \<Rightarrow> store \<Rightarrow> store \<times> printed list" where
  "reconcile_rows env [] conn = (conn, [])"
| "reconcile_rows env (row # rows) conn =
     (let (conn1, j) = check_and_update_status env conn row;
          (conn2, lines) = reconcile_rows env rows conn1
      in (conn2, ListedJob j # lines))"

definition list_jobs :: "os_env \<Rightarrow> int \<Rightarrow> store \<Rightarrow> store \<times> printed list" where
  "list_jobs env limit conn =
     (let rows = recent_jobs limit conn in
      if rows = [] then (conn, [NoJobs]) else reconcile_rows env rows conn)"

section \<open>Cleanup\<close>

text \<open>
  \<^verbatim>\<open>clean_jobs(keep)\<close>. The rows to delete are the terminal rows, newest id first, after
  the first \<open>keep\<close> (a negative offset is no offset). For each of them the files are removed
  when the row has a non-empty output path, then its notifications and the row itself are
  deleted. The deletions are committed after the loop: when \<^verbatim>\<open>with_suffix\<close> raises, the
  store keeps all its rows and the files removed so far stay removed.
\<close>

definition terminal :: "string \<Rightarrow> bool" where
  "terminal s = (s \<in> set [''done'', ''failed'', ''cancelled''])"

definition rows_to_clean :: "int \<Rightarrow> store \<Rightarrow> job list" where
  "rows_to_clean keep conn =
     drop (nat keep) (rev (sort_key job_id (filter (\<lambda>r. terminal (status r)) (jobs conn))))"

definition unlink_if_exists :: "string \<Rightarrow> fs \<Rightarrow> fs" where
  "unlink_if_exists p fs = (case fs p of None \<Rightarrow> fs | Some text \<Rightarrow> fs(p := None))"

definition delete_artifacts :: "os_env \<Rightarrow> job \<Rightarrow> fs \<Rightarrow> py_error + fs" where
  "delete_artifacts env row fs =
     (case output_file row of
        None \<Rightarrow> Inr fs
      | Some f \<Rightarrow>
          if f = [] then Inr fs
          else (case with_suffix f ''.out'' of
                  Inl e \<Rightarrow> Inl e
                | Inr p_out \<Rightarrow>
                    (case with_suffix f ''.err'' of
                       Inl e \<Rightarrow> Inl e
                     | Inr p_err \<Rightarrow>
                         Inr (unlink_if_exists (watcher_path env (job_id row))
                                (unlink_if_exists p_err (unlink_if_exists p_out fs))))))"

definition delete_job_rows :: "nat \<Rightarrow> store \<Rightarrow> store" where
  "delete_job_rows jid conn =
     conn\<lparr>notifications := filter (\<lambda>n. n_job_id n \<noteq> jid) (notifications conn),
          jobs := filter (\<lambda>r. job_id r \<noteq> jid) (jobs conn)\<rparr>"

fun clean_rows :: "os_env \<Rightarrow> job list \<Rightarrow> store \<Rightarrow> fs \<Rightarrow> (py_error + store) \<times> fs" where
  "clean_rows env [] conn fs = (Inr conn, fs)"
| "clean_rows env (row # rows) conn fs =
     (case delete_artifacts env row fs of
        Inl e \<Rightarrow> (Inl e, fs)
      | Inr fs' \<Rightarrow> clean_rows env rows (delete_job_rows (job_id row) conn) fs')"

definition clean_jobs :: "os_env \<Rightarrow> int \<Rightarrow> world \<Rightarrow> py_error option \<times> world \<times> printed list" where
  "clean_jobs env keep w =
     (let rows = rows_to_clean keep (db w) in
      if rows = [] then (None, w, [NothingToClean])
      else (case clean_rows env rows (db w) (files w) of
              (Inl e, fs') \<Rightarrow> (Some e, w\<lparr>files := fs'\<rparr>, [])
            | (Inr conn', fs') \<Rightarrow>
                (None, w\<lparr>db := conn', files := fs'\<rparr>, [Cleaned (length rows)])))"

section \<open>The admission guard of scripts/guard.py\<close>

text \<open>
  \<^verbatim>\<open>guard_job(command, label)\<close>. The command check, the path check and the extraction
  of the paths a command names are the regular-expression and file-system rules of
  \<^verbatim>\<open>is_command_safe\<close>, \<^verbatim>\<open>is_path_allowed\<close> and \<^verbatim>\<open>re.findall\<close>; the guard takes
  them as given. The jobs database is \<open>None\<close> when its file does not exist. The result is
  the decision, its reason, and the row written to the audit log (result and reason).
\<close>

record guard_rules =
  is_command_safe :: "string \<Rightarrow> bool \<times> string"
  is_path_allowed :: "string \<Rightarrow> bool \<times> string"
  referenced_paths :: "string \<Rightarrow> string list"
  max_concurrent_jobs :: int

fun check_paths :: "guard_rules \<Rightarrow> string list \<Rightarrow> (string \<times> string) option" where
  "check_paths cfg [] = None"
| "check_paths cfg (p # ps) =
     (if p = ''/'' \<or> p = ''~'' then check_paths cfg ps
      else if fst (is_path_allowed cfg p) then check_paths cfg ps
      else Some (p, snd (is_path_allowed cfg p)))"

definition running_count :: "store \<Rightarrow> nat" where
  "running_count conn = length (filter (\<lambda>r. status r = ''running'') (jobs conn))"

definition guard_job ::
  "guard_rules \<Rightarrow> string \<Rightarrow> store option \<Rightarrow> bool \<times> string \<times> (string \<times> string option)" where
  "guard_job cfg cmd jobs_db =
     (if \<not> fst (is_command_safe cfg cmd)
      then (False, snd (is_command_safe cfg cmd),
            (''blocked'', Some (snd (is_command_safe cfg cmd))))
      else (case check_paths cfg (referenced_paths cfg cmd) of
              Some (p, path_reason) \<Rightarrow>
                (False, ''Command references disallowed path: '' @ p,
                 (''blocked'', Some path_reason))
            | None \<Rightarrow>
                (let denied =
                   (case jobs_db of
                      None \<Rightarrow> None
                    | Some conn \<Rightarrow>
                        if int (running_count conn) \<ge> max_concurrent_jobs cfg
                        then Some (''Too many concurrent jobs ('' @ str_nat (running_count conn)
                                   @ ''/'' @ str_int (max_concurrent_jobs cfg) @ '')'')
                        else None)
                 in case denied of
                      Some reason \<Rightarrow> (False, reason, (''blocked'', Some reason))
                    | None \<Rightarrow> (True, ''Command approved'', (''allowed'', None)))))"

section \<open>The operations of the system\<close>

text \<open>
  The command line of \<^verbatim>\<open>jobs.py\<close> (\<^verbatim>\<open>main()\<close>) and the end of a watcher process, as
  steps on the whole system. A watcher finishes only if it was started; it finalizes once
  and is gone.
\<close>

datatype op =
    Submit string "string option"
  | Status nat
  | Result nat int
  | ListJobs int
  | Cancel nat
  | Notify
  | Clean int
  | WatcherExit watcher

fun exec :: "os_env \<Rightarrow> op \<Rightarrow> world \<Rightarrow> world" where
  "exec env (Submit cmd lbl) w = fst (snd (submit_job env cmd lbl w))"
| "exec env (Status jid) w = w\<lparr>db := fst (get_job_status env jid (db w))\<rparr>"
| "exec env (Result jid tail) w = w\<lparr>db := fst (get_job_result env jid tail (files w) (db w))\<rparr>"
| "exec env (ListJobs limit) w = w\<lparr>db := fst (list_jobs env limit (db w))\<rparr>"
| "exec env (Cancel jid) w = w\<lparr>db := fst (cancel_job env jid (db w))\<rparr>"
| "exec env Notify w = w\<lparr>db := fst (get_notifications (db w))\<rparr>"
| "exec env (Clean keep) w = fst (snd (clean_jobs env keep w))"
| "exec env (WatcherExit wt) w =
     (if wt \<in> set (watchers w)
      then w\<lparr>db := finalize env wt (files w) (db w), watchers := remove1 wt (watchers w)\<rparr>
      else w)"

text \<open>A run of the system: a sequence of operations, each under the operating system as it
  is at that moment.\<close>

fun run :: "(os_env \<times> op) list \<Rightarrow> world \<Rightarrow> world" where
  "run [] w = w"
| "run ((env, x) # steps) w = run steps (exec env x w)"

definition is_read :: "op \<Rightarrow> bool" where
  "is_read x =
     (case x of Status jid \<Rightarrow> True | Result jid tail \<Rightarrow> True | ListJobs limit \<Rightarrow> True
      | _ \<Rightarrow> False)"

section \<open>Notions used in the statements\<close>

text \<open>A row is stale when it is recorded as running and the liveness probe on its stored
  pid fails; \<open>mark_done\<close> is the correction the reconciler writes; \<open>fix_rows\<close> applies the
  correction to the rows with the given ids.\<close>

definition stale :: "os_env \<Rightarrow> job \<Rightarrow> bool" where
  "stale env j =
     (status j = ''running'' \<and>
      (case pid j of None \<Rightarrow> False | Some p \<Rightarrow> p \<noteq> 0 \<and> \<not> kill0_ok env p))"

definition mark_done :: "os_env \<Rightarrow> job \<Rightarrow> job" where
  "mark_done env r = r\<lparr>status := ''done'', finished_at := Some (clock env (job_id r))\<rparr>"

definition fix_rows :: "os_env \<Rightarrow> nat set \<Rightarrow> store \<Rightarrow> store" where
  "fix_rows env S conn =
     conn\<lparr>jobs := map (\<lambda>r. if job_id r \<in> S then mark_done env r else r) (jobs conn)\<rparr>"

section \<open>Sample states\<close>

text \<open>An operating system in which no recorded process is alive any more, and rows to
  build stores from.\<close>

definition env0 :: os_env where
  "env0 = \<lparr>clock = (\<lambda>jid. ''2026-01-01T00:00:00+00:00''), kill0_ok = (\<lambda>p. False),
           getpgid = (\<lambda>p. None), killpg_ok = (\<lambda>g. False), popen = (\<lambda>cmd. Some 4242),
           install_root = ''/opt/code-intel''\<rparr>"

definition mk_job :: "nat \<Rightarrow> string \<Rightarrow> int option \<Rightarrow> string option \<Rightarrow> job" where
  "mk_job jid st p out =
     \<lparr>job_id = jid, command = ''make test'', label = None, status = st, pid = p,
      created_at = ''2025-12-31T23:00:00+00:00'', finished_at = None, exit_code = None,
      output_file = out, error = None\<rparr>"

definition mk_world :: "job list \<Rightarrow> world" where
  "mk_world rows =
     \<lparr>db = \<lparr>jobs = rows, jobs_seq = fold max (map job_id rows) 0, notifications = [],
            notifications_seq = 0\<rparr>,
      files = Map.empty, watchers = []\<rparr>"

text \<open>An operating system in which every process is alive and every signal is delivered.\<close>

definition env_live :: os_env where
  "env_live = \<lparr>clock = (\<lambda>jid. ''2026-01-01T00:00:00+00:00''), kill0_ok = (\<lambda>p. True),
           getpgid = (\<lambda>p. Some p), killpg_ok = (\<lambda>g. True), popen = (\<lambda>cmd. Some 4242),
           install_root = ''/opt/code-intel''\<rparr>"

text \<open>\<open>mark_cancelled\<close> is what a cancellation writes to a row and \<open>finalized\<close> what
  the watcher writes to it, given the stripped text of the error artifact; \<open>new_job_id\<close>
  is the id the next submission gets.\<close>

definition mark_cancelled :: "os_env \<Rightarrow> job \<Rightarrow> job" where
  "mark_cancelled env r = r\<lparr>status := ''cancelled'', finished_at := Some (clock env (job_id r))\<rparr>"

definition finalized :: "os_env \<Rightarrow> string \<Rightarrow> job \<Rightarrow> job" where
  "finalized env err_text r =
     (if err_text \<noteq> []
      then r\<lparr>status := ''done'', finished_at := Some (clock env (job_id r)), exit_code := Some 1,
             error := Some (take 500 err_text)\<rparr>
      else r\<lparr>status := ''done'', finished_at := Some (clock env (job_id r)), exit_code := Some 0\<rparr>)"

definition new_job_id :: "world \<Rightarrow> nat" where
  "new_job_id w = next_rowid (jobs_seq (db w)) (map job_id (jobs (db w)))"

text \<open>Every watcher process belongs to a job id the table has handed out, and a row with
  that id has a pid: the watcher is started after the pid is stored.\<close>

definition launched :: "world \<Rightarrow> bool" where
  "launched w =
     list_all (\<lambda>wt. w_job_id wt \<le> jobs_seq (db w) \<and>
                    list_all (\<lambda>r. job_id r \<noteq> w_job_id wt \<or> pid r \<noteq> None) (jobs (db w)))
       (watchers w)"

text \<open>\<open>mark_all S\<close> sets the delivered flag of the notifications with an id in \<open>S\<close>.\<close>

definition mark_all :: "nat set \<Rightarrow> store \<Rightarrow> store" where
  "mark_all S conn =
     conn\<lparr>notifications :=
            map (\<lambda>n. if n_id n \<in> S then n\<lparr>delivered := 1\<rparr> else n) (notifications conn)\<rparr>"

text \<open>A store with three notifications, the second delivered already, the first created
  after the third.\<close>

definition mk_note :: "nat \<Rightarrow> nat \<Rightarrow> string \<Rightarrow> string \<Rightarrow> int \<Rightarrow> notification" where
  "mk_note nid jid msg t d =
     \<lparr>n_id = nid, n_job_id = jid, message = msg, n_created_at = t, delivered = d\<rparr>"

definition notes0 :: store where
  "notes0 = \<lparr>jobs = [], jobs_seq = 3,
     notifications = [mk_note 1 1 ''Job #1 finished.'' ''2026-01-01T00:00:09+00:00'' 0,
                      mk_note 2 2 ''Job #2 finished.'' ''2026-01-01T00:00:05+00:00'' 1,
                      mk_note 3 3 ''Job #3 finished.'' ''2026-01-01T00:00:07+00:00'' 0],
     notifications_seq = 3\<rparr>"

text \<open>In a store kept by the system alone, a row recorded as running has no completion
  time, no exit code and no error text.\<close>

definition blank_running :: "store \<Rightarrow> bool" where
  "blank_running conn =
     list_all (\<lambda>r. status r \<noteq> ''running'' \<or>
                   (finished_at r = None \<and> exit_code r = None \<and> error r = None)) (jobs conn)"

text \<open>The states the system can be in: it starts with an empty store and no watcher, its
  operations run under any state of the operating system, and the launched commands write
  to the files as they like.\<close>

inductive reachable :: "world \<Rightarrow> bool" where
  fresh: "reachable \<lparr>db = empty_store, files = fs, watchers = []\<rparr>"
| step: "reachable w \<Longrightarrow> reachable (exec env x w)"
| written: "reachable w \<Longrightarrow> reachable (w\<lparr>files := fs\<rparr>)"

text \<open>The system before its first job, and the watcher of job 1 when that job is started
  with pid 4242 under \<^verbatim>\<open>/opt/code-intel\<close>.\<close>

definition world0 :: world where
  "world0 = \<lparr>db = empty_store, files = Map.empty, watchers = []\<rparr>"

definition watcher1 :: watcher where
  "watcher1 = \<lparr>w_job_id = 1, w_pid = 4242,
                w_out_file = ''/opt/code-intel/jobs/artifacts/job_1.out'',
                w_err_file = ''/opt/code-intel/jobs/artifacts/job_1.err''\<rparr>"

text \<open>\<open>recorded\<close>: every row holds the output path \<^verbatim>\<open>submit_job\<close> stores for its id.
  \<open>artifact_paths\<close> are the two artifacts and the watcher script of the given rows, and
  \<open>without S fs\<close> is the file system \<open>fs\<close> with the paths in \<open>S\<close> removed.\<close>

definition recorded :: "os_env \<Rightarrow> store \<Rightarrow> bool" where
  "recorded env conn = list_all (\<lambda>r. output_file r = Some (job_out env (job_id r))) (jobs conn)"

definition artifact_paths :: "os_env \<Rightarrow> job list \<Rightarrow> string set" where
  "artifact_paths env rows =
     set (concat (map (\<lambda>r. [job_out env (job_id r), job_err env (job_id r),
                              watcher_path env (job_id r)]) rows))"

definition without :: "string set \<Rightarrow> fs \<Rightarrow> fs" where
  "without S fs = (\<lambda>p. if p \<in> S then None else fs p)"

text \<open>Five terminal jobs and one running job, each with its three files, and three
  notifications.\<close>

definition jobs6 :: "job list" where
  "jobs6 = [mk_job 1 ''done'' (Some 101) (Some (job_out env0 1)),
            mk_job 2 ''cancelled'' (Some 102) (Some (job_out env0 2)),
            mk_job 3 ''running'' (Some 103) (Some (job_out env0 3)),
            mk_job 4 ''done'' (Some 104) (Some (job_out env0 4)),
            mk_job 5 ''failed'' (Some 105) (Some (job_out env0 5)),
            mk_job 6 ''done'' (Some 106) (Some (job_out env0 6))]"

definition world6 :: world where
  "world6 =
     \<lparr>db = \<lparr>jobs = jobs6, jobs_seq = 6,
            notifications = [mk_note 1 1 ''Job #1 finished.'' ''2026-01-01T00:00:01+00:00'' 1,
                             mk_note 2 4 ''Job #4 finished.'' ''2026-01-01T00:00:04+00:00'' 0,
                             mk_note 3 6 ''Job #6 finished.'' ''2026-01-01T00:00:06+00:00'' 0],
            notifications_seq = 3\<rparr>,
      files = (\<lambda>p. if p \<in> artifact_paths env0 jobs6 then Some (Text ''output'') else None),
      watchers = []\<rparr>"

text \<open>Guard rules that let every command and path through, with the default limit of five
  concurrent jobs, and a system with five running jobs.\<close>

definition rules0 :: guard_rules where
  "rules0 = \<lparr>is_command_safe = (\<lambda>cmd. (True, ''Command appears safe'')),
             is_path_allowed = (\<lambda>p. (True, ''Path is under /opt/code-intel'')),
             referenced_paths = (\<lambda>cmd. []),
             max_concurrent_jobs = 5\<rparr>"

definition world5 :: world where
  "world5 = mk_world [mk_job 1 ''running'' (Some 101) (Some (job_out env_live 1)),
                      mk_job 2 ''running'' (Some 102) (Some (job_out env_live 2)),
                      mk_job 3 ''running'' (Some 103) (Some (job_out env_live 3)),
                      mk_job 4 ''running'' (Some 104) (Some (job_out env_live 4)),
                      mk_job 5 ''running'' (Some 105) (Some (job_out env_live 5))]"

text \<open>Every watcher process belongs to its own job id, and a job id has a notification only
  after its watcher is gone, and then one: the ids that have a watcher and the ids that
  have a notification are each free of repetitions, disjoint, and handed out by the table.\<close>

definition finalize_once :: "world \<Rightarrow> bool" where
  "finalize_once w =
     (distinct (map w_job_id (watchers w)) \<and>
      distinct (map n_job_id (notifications (db w))) \<and>
      list_all (\<lambda>k. k \<le> jobs_seq (db w)) (map w_job_id (watchers w)) \<and>
      list_all (\<lambda>k. k \<le> jobs_seq (db w) \<and> k \<notin> set (map w_job_id (watchers w)))
        (map n_job_id (notifications (db w))))"

text \<open>The system after job 1 was submitted and its process has written to its error
  artifact what reads as the given content.\<close>

definition after_stderr :: "content \<Rightarrow> world" where
  "after_stderr c =
     (let w = fst (snd (submit_job env_live ''cat image.png >&2'' None world0))
      in w\<lparr>files := (files w)(w_err_file watcher1 \<mapsto> c)\<rparr>)"

section \<open>Facts about the store\<close>

lemma find_map_id:
  assumes "\<And>r. job_id (g r) = job_id r"
  shows "find (\<lambda>r. job_id r = jid) (map g rows) = map_option g (find (\<lambda>r. job_id r = jid) rows)"
  by (induction rows) (simp_all add: assms)

lemma select_job_id: "select_job conn jid = Some r \<Longrightarrow> job_id r = jid"
  unfolding select_job_def by (auto simp: find_Some_iff)

lemma select_job_mem: "select_job conn jid = Some r \<Longrightarrow> r \<in> set (jobs conn)"
  unfolding select_job_def by (auto simp: find_Some_iff)

lemma distinct_same_id:
  assumes "distinct (map job_id rows)" "r \<in> set rows" "r' \<in> set rows" "job_id r = job_id r'"
  shows "r = r'"
  using assms by (meson distinct_map inj_onD)

lemma update_job_cong:
  "(\<And>r. job_id r = k \<Longrightarrow> f r = g r) \<Longrightarrow> update_job k f conn = update_job k g conn"
  unfolding update_job_def by simp

lemma select_job_update:
  assumes "\<And>r. job_id (f r) = job_id r"
  shows "select_job (update_job k f conn) jid =
         (if jid = k then map_option f (select_job conn jid) else select_job conn jid)"
proof -
  let ?g = "\<lambda>r. if job_id r = k then f r else r"
  have g: "\<And>r. job_id (?g r) = job_id r" by (simp add: assms)
  have "select_job (update_job k f conn) jid = map_option ?g (select_job conn jid)"
    unfolding select_job_def update_job_def using find_map_id[of ?g jid "jobs conn"] g by simp
  then show ?thesis using select_job_id[of conn jid] by (cases "select_job conn jid") auto
qed

lemma jobs_update_ids [simp]:
  "(\<And>r. job_id (f r) = job_id r) \<Longrightarrow>
     map job_id (jobs (update_job k f conn)) = map job_id (jobs conn)"
  unfolding update_job_def by (simp add: comp_def cong: map_cong)

section \<open>Facts about the reconciler\<close>

lemma job_id_mark_done [simp]: "job_id (mark_done env r) = job_id r"
  by (simp add: mark_done_def)

lemma mark_done_idem: "mark_done env (mark_done env r) = mark_done env r"
  by (simp add: mark_done_def)

lemma check_and_update_status_eq:
  "check_and_update_status env conn j =
     (if stale env j then (update_job (job_id j) (mark_done env) conn, j\<lparr>status := ''done''\<rparr>)
      else (conn, j))"
  unfolding check_and_update_status_def stale_def
  by (auto split: option.splits intro!: update_job_cong simp: mark_done_def)

lemma fix_rows_update:
  "fix_rows env S (update_job k (mark_done env) conn) = fix_rows env (insert k S) conn"
  unfolding fix_rows_def update_job_def
  by (auto simp: mark_done_idem)

lemma reconcile_rows_store:
  "fst (reconcile_rows env rows conn) = fix_rows env (job_id ` {r \<in> set rows. stale env r}) conn"
proof (induction rows arbitrary: conn)
  case Nil
  show ?case by (simp add: fix_rows_def)
next
  case (Cons row rows)
  have eq: "job_id ` {r \<in> set (row # rows). stale env r} =
        (if stale env row then insert (job_id row) (job_id ` {r \<in> set rows. stale env r})
         else job_id ` {r \<in> set rows. stale env r})"
    by auto
  show ?case unfolding eq
    by (simp add: check_and_update_status_eq Cons.IH fix_rows_update split_beta)
qed

lemma reconcile_rows_lines:
  "snd (reconcile_rows env rows conn) =
     map (\<lambda>r. ListedJob (if stale env r then r\<lparr>status := ''done''\<rparr> else r)) rows"
  by (induction rows arbitrary: conn) (simp_all add: check_and_update_status_eq split_beta)

lemma select_job_fix_rows:
  "select_job (fix_rows env S conn) jid =
     map_option (\<lambda>r. if jid \<in> S then mark_done env r else r) (select_job conn jid)"
proof -
  let ?g = "\<lambda>r. if job_id r \<in> S then mark_done env r else r"
  have "select_job (fix_rows env S conn) jid = map_option ?g (select_job conn jid)"
    unfolding select_job_def fix_rows_def using find_map_id[of ?g jid "jobs conn"] by simp
  then show ?thesis using select_job_id[of conn jid] by (cases "select_job conn jid") auto
qed

lemma jobs_fix_rows_ids [simp]:
  "map job_id (jobs (fix_rows env S conn)) = map job_id (jobs conn)"
  unfolding fix_rows_def by (simp add: comp_def cong: map_cong)

lemma recent_jobs_subset: "set (recent_jobs limit conn) \<subseteq> set (jobs conn)"
  unfolding recent_jobs_def by (auto simp: Let_def dest: in_set_takeD)

lemma list_jobs_store:
  "fst (list_jobs env limit conn) =
     fix_rows env (job_id ` {r \<in> set (recent_jobs limit conn). stale env r}) conn"
  unfolding list_jobs_def
  by (auto simp: Let_def reconcile_rows_store fix_rows_def intro!: store.equality map_idI[symmetric])

lemma get_job_status_store:
  "fst (get_job_status env k conn) =
     (case select_job conn k of None \<Rightarrow> conn
      | Some row \<Rightarrow> if stale env row then update_job k (mark_done env) conn else conn)"
  unfolding get_job_status_def
  by (auto simp: check_and_update_status_eq dest: select_job_id split: option.splits)

lemma get_job_result_store:
  "fst (get_job_result env k tail fs conn) = fst (get_job_status env k conn)"
  unfolding get_job_result_def get_job_status_def
  by (auto simp: split_beta split: option.splits)

lemma select_after_status:
  assumes "select_job conn jid = Some j"
  shows "select_job (fst (get_job_status env k conn)) jid =
           Some (if k = jid \<and> stale env j then mark_done env j else j)"
  using assms
  by (auto simp: get_job_status_store select_job_update split: option.splits)

lemma select_after_list:
  assumes "select_job conn jid = Some j"
  shows "select_job (fst (list_jobs env limit conn)) jid =
           Some (if jid \<in> job_id ` {r \<in> set (recent_jobs limit conn). stale env r}
                 then mark_done env j else j)"
  using assms by (simp add: list_jobs_store select_job_fix_rows)

lemma read_keeps_ids:
  "is_read x \<Longrightarrow> map job_id (jobs (db (exec env x w))) = map job_id (jobs (db w))"
  by (cases x) (auto simp: is_read_def get_job_status_store get_job_result_store list_jobs_store
      split: option.splits)

lemma read_keeps_pidless:
  assumes d: "distinct (map job_id (jobs (db w)))"
    and sel: "select_job (db w) jid = Some j"
    and nopid: "pid j = None"
    and rd: "is_read x"
  shows "select_job (db (exec env x w)) jid = Some j"
proof -
  have ns: "\<not> stale env j" using nopid by (simp add: stale_def)
  have mem: "j \<in> set (jobs (db w))" and jid: "job_id j = jid"
    using sel select_job_mem select_job_id by auto
  show ?thesis
  proof (cases x)
    case (Status k)
    then show ?thesis using select_after_status[OF sel, of env k] ns by simp
  next
    case (Result k tail)
    then show ?thesis using select_after_status[OF sel, of env k] ns
      by (simp add: get_job_result_store)
  next
    case (ListJobs limit)
    have "jid \<notin> job_id ` {r \<in> set (recent_jobs limit (db w)). stale env r}"
    proof
      assume "jid \<in> job_id ` {r \<in> set (recent_jobs limit (db w)). stale env r}"
      then obtain r where r: "r \<in> set (recent_jobs limit (db w))" "stale env r" "job_id r = jid"
        by auto
      then have "r \<in> set (jobs (db w))" using recent_jobs_subset by blast
      then have "r = j" using distinct_same_id[OF d _ mem] r(3) jid by simp
      then show False using r(2) ns by simp
    qed
    then show ?thesis using ListJobs select_after_list[OF sel, of env limit] by simp
  qed (use rd in \<open>simp_all add: is_read_def\<close>)
qed

lemma reads_keep_pidless:
  assumes "distinct (map job_id (jobs (db w)))"
    and "select_job (db w) jid = Some j"
    and "pid j = None"
    and "list_all (\<lambda>s. is_read (snd s)) steps"
  shows "select_job (db (run steps w)) jid = Some j"
  using assms
proof (induction steps arbitrary: w)
  case Nil
  then show ?case by simp
next
  case (Cons s steps)
  obtain env x where s: "s = (env, x)" by (cases s)
  have rd: "is_read x" using Cons.prems(4) s by simp
  have "distinct (map job_id (jobs (db (exec env x w))))"
    using read_keeps_ids[OF rd] Cons.prems(1) by simp
  moreover have "select_job (db (exec env x w)) jid = Some j"
    using read_keeps_pidless[OF Cons.prems(1-3) rd] .
  ultimately show ?case using Cons.IH Cons.prems(3,4) s by simp
qed

section \<open>Launch failures and the reconciler\<close>

text \<open>
  C9. A row recorded as running with a null pid is never completed by the reconciler:
  \<^verbatim>\<open>check_and_update_status\<close> returns it and the store as they are, and after any sequence
  of read operations (status, result, listing; of this job or of others, under any state
  of the operating system) the store still holds the row unchanged, so it is still
  running. The ids of the jobs table are distinct, as its primary key has them.
\<close>

theorem pidless_running_job_survives_reads:
  assumes "distinct (map job_id (jobs (db w)))"
    and "select_job (db w) jid = Some j"
    and "status j = ''running''"
    and "pid j = None"
    and "list_all (\<lambda>s. is_read (snd s)) steps"
  shows "check_and_update_status env (db w) j = (db w, j)
       \<and> select_job (db (run steps w)) jid = Some j
       \<and> \<not> terminal (status j)"
  using assms reads_keep_pidless[of w jid j steps]
  by (simp add: check_and_update_status_eq stale_def terminal_def)

theorem pidless_running_job_survives_reads_witness:
  "distinct (map job_id (jobs (db (mk_world [mk_job 1 ''running'' None None,
                                            mk_job 2 ''running'' (Some 77) None]))))
   \<and> select_job (db (mk_world [mk_job 1 ''running'' None None,
                              mk_job 2 ''running'' (Some 77) None])) 1
       = Some (mk_job 1 ''running'' None None)
   \<and> list_all (\<lambda>s. is_read (snd s)) [(env0, Status 1), (env0, ListJobs 10), (env0, Result 1 0)]
   \<and> select_job (db (run [(env0, Status 1), (env0, ListJobs 10), (env0, Result 1 0)]
                      (mk_world [mk_job 1 ''running'' None None,
                                 mk_job 2 ''running'' (Some 77) None]))) 1
       = Some (mk_job 1 ''running'' None None)
   \<and> select_job (db (run [(env0, Status 1), (env0, ListJobs 10), (env0, Result 1 0)]
                      (mk_world [mk_job 1 ''running'' None None,
                                 mk_job 2 ''running'' (Some 77) None]))) 2
       = Some (mark_done env0 (mk_job 2 ''running'' (Some 77) None))"
proof -
  let ?w = "mk_world [mk_job 1 ''running'' None None, mk_job 2 ''running'' (Some 77) None]"
  let ?steps = "[(env0, Status 1), (env0, ListJobs 10), (env0, Result 1 0)]"
  have d: "distinct (map job_id (jobs (db ?w)))"
    by (simp add: mk_world_def mk_job_def)
  have sel: "select_job (db ?w) 1 = Some (mk_job 1 ''running'' None None)"
    by (simp add: mk_world_def mk_job_def select_job_def)
  have st: "status (mk_job 1 ''running'' None None) = ''running''"
    and np: "pid (mk_job 1 ''running'' None None) = None"
    by (simp_all add: mk_job_def)
  have rd: "list_all (\<lambda>s. is_read (snd s)) ?steps"
    by (simp add: is_read_def)
  have other: "select_job (db (run ?steps ?w)) 2
                 = Some (mark_done env0 (mk_job 2 ''running'' (Some 77) None))"
    by (simp add: mk_world_def mk_job_def select_job_def get_job_status_def get_job_result_def
        list_jobs_def recent_jobs_def check_and_update_status_def update_job_def env0_def
        mark_done_def show_result_def)
  from pidless_running_job_survives_reads[OF d sel st np rd] d sel rd other
  show ?thesis by simp
qed

section \<open>Facts about cancellation, delivery and the watcher\<close>

lemma job_id_mark_cancelled [simp]: "job_id (mark_cancelled env r) = job_id r"
  by (simp add: mark_cancelled_def)

lemma cancel_job_running:
  assumes "select_job conn jid = Some j" "status j = ''running''"
  shows "fst (cancel_job env jid conn) = update_job jid (mark_cancelled env) conn"
    and "fst (snd (cancel_job env jid conn)) =
           (case pid j of None \<Rightarrow> []
            | Some p \<Rightarrow> if p = 0 then [] else (case getpgid env p of None \<Rightarrow> [] | Some g \<Rightarrow> [Killpg g]))"
  using assms unfolding cancel_job_def
  by (auto split: option.splits simp: mark_cancelled_def intro!: update_job_cong)

lemma cancel_job_not_running:
  assumes "select_job conn jid = Some j" "status j \<noteq> ''running''"
  shows "cancel_job env jid conn = (conn, [], [AlreadyStatus jid (status j)])"
  using assms unfolding cancel_job_def by simp

lemma cancel_job_store:
  "fst (cancel_job env k conn) =
     (case select_job conn k of None \<Rightarrow> conn
      | Some r \<Rightarrow> if status r = ''running'' then update_job k (mark_cancelled env) conn else conn)"
  using cancel_job_running(1)[of conn k _ env] cancel_job_not_running[of conn k _ env]
  by (auto split: option.splits simp: cancel_job_def)

lemma select_after_cancel:
  assumes "select_job conn jid = Some j"
  shows "select_job (fst (cancel_job env k conn)) jid =
           Some (if k = jid \<and> status j = ''running'' then mark_cancelled env j else j)"
  using assms by (auto simp: cancel_job_store select_job_update split: option.splits)

lemma jobs_mark_delivered [simp]: "jobs (mark_delivered nid conn) = jobs conn"
  by (simp add: mark_delivered_def)

lemma jobs_deliver [simp]: "jobs (fst (deliver rows conn)) = jobs conn"
  by (induction rows arbitrary: conn) (simp_all add: split_beta)

lemma jobs_get_notifications [simp]: "jobs (fst (get_notifications conn)) = jobs conn"
  by (simp add: get_notifications_def Let_def)

lemma select_job_cong: "jobs conn' = jobs conn \<Longrightarrow> select_job conn' jid = select_job conn jid"
  by (simp add: select_job_def)

lemma jobs_insert_notification [simp]: "jobs (insert_notification jid msg now conn) = jobs conn"
  by (simp add: insert_notification_def Let_def)

lemma job_id_finalized [simp]: "job_id (finalized env e r) = job_id r"
  by (simp add: finalized_def)

lemma pid_finalized [simp]: "pid (finalized env e r) = pid r"
  by (simp add: finalized_def)

lemma update_job_twice:
  "update_job k g (update_job k f conn) = update_job k (\<lambda>r. g (f r)) conn"
  if "\<And>r. job_id (f r) = job_id r"
  unfolding update_job_def using that by auto

lemma jobs_finalize:
  "jobs (finalize env wt fs conn) =
     jobs (update_job (w_job_id wt) (finalized env (read_err_text fs (w_err_file wt))) conn)"
  unfolding finalize_def Let_def
  by (auto simp: update_job_twice finalized_def intro!: arg_cong[where f=jobs] update_job_cong)

lemma select_after_finalize:
  assumes "select_job conn jid = Some j"
  shows "select_job (finalize env wt fs conn) jid =
           Some (if w_job_id wt = jid then finalized env (read_err_text fs (w_err_file wt)) j else j)"
proof -
  have "select_job (finalize env wt fs conn) jid =
        select_job (update_job (w_job_id wt) (finalized env (read_err_text fs (w_err_file wt))) conn) jid"
    by (rule select_job_cong) (rule jobs_finalize)
  then show ?thesis using assms by (auto simp: select_job_update)
qed

section \<open>Facts about submission and cleanup\<close>

lemma fold_max_ge: "s \<le> fold max ids (s::nat)" "x \<in> set ids \<Longrightarrow> x \<le> fold max ids s"
proof -
  have "s \<le> fold max ids s \<and> (\<forall>x\<in>set ids. x \<le> fold max ids s)"
  proof (induction ids arbitrary: s)
    case Nil
    show ?case by simp
  next
    case (Cons a ids)
    have "max a s \<le> fold max ids (max a s)" and "\<forall>x\<in>set ids. x \<le> fold max ids (max a s)"
      using Cons.IH[of "max a s"] by auto
    then show ?case by auto
  qed
  then show "s \<le> fold max ids s" "x \<in> set ids \<Longrightarrow> x \<le> fold max ids s" by auto
qed

lemma next_rowid_fresh: "x \<in> set ids \<Longrightarrow> x < next_rowid seq ids" "seq < next_rowid seq ids"
  unfolding next_rowid_def using fold_max_ge[of seq ids] fold_max_ge(2)[of x ids seq]
  by (auto simp: less_Suc_eq_le)

lemma find_append_Some: "find P xs = Some x \<Longrightarrow> find P (xs @ ys) = Some x"
  by (induction xs) (auto split: if_splits)

lemma find_filter_Some: "find P xs = Some x \<Longrightarrow> Q x \<Longrightarrow> find P (filter Q xs) = Some x"
  by (induction xs) (auto split: if_splits)

lemma submit_job_failed:
  "popen env cmd = None \<Longrightarrow>
     db (fst (snd (submit_job env cmd lbl w))) = db w \<and>
     watchers (fst (snd (submit_job env cmd lbl w))) = watchers w"
  unfolding submit_job_def by (simp add: Let_def split_beta)

lemma submit_job_started:
  assumes "popen env cmd = Some p"
  shows "jobs (db (fst (snd (submit_job env cmd lbl w)))) =
           jobs (db w) @
             [\<lparr>job_id = new_job_id w, command = cmd, label = lbl, status = ''running'',
               pid = Some p, created_at = clock env (new_job_id w), finished_at = None,
               exit_code = None, output_file = Some (job_out env (new_job_id w)), error = None\<rparr>]"
    and "jobs_seq (db (fst (snd (submit_job env cmd lbl w)))) = new_job_id w"
    and "notifications (db (fst (snd (submit_job env cmd lbl w)))) = notifications (db w)"
    and "watchers (fst (snd (submit_job env cmd lbl w))) =
           watchers w @ [\<lparr>w_job_id = new_job_id w, w_pid = p, w_out_file = job_out env (new_job_id w),
                          w_err_file = job_err env (new_job_id w)\<rparr>]"
    and "fst (submit_job env cmd lbl w) = Inr (new_job_id w)"
proof -
  have fresh: "\<And>r. r \<in> set (jobs (db w)) \<Longrightarrow> job_id r \<noteq> new_job_id w"
    using next_rowid_fresh(1)[of _ "map job_id (jobs (db w))" "jobs_seq (db w)"]
    unfolding new_job_id_def by fastforce
  show "jobs (db (fst (snd (submit_job env cmd lbl w)))) =
           jobs (db w) @
             [\<lparr>job_id = new_job_id w, command = cmd, label = lbl, status = ''running'',
               pid = Some p, created_at = clock env (new_job_id w), finished_at = None,
               exit_code = None, output_file = Some (job_out env (new_job_id w)), error = None\<rparr>]"
    using assms fresh unfolding submit_job_def insert_job_def update_job_def new_job_id_def
    by (simp add: Let_def cong: map_cong)
  show "jobs_seq (db (fst (snd (submit_job env cmd lbl w)))) = new_job_id w"
    and "notifications (db (fst (snd (submit_job env cmd lbl w)))) = notifications (db w)"
    and "watchers (fst (snd (submit_job env cmd lbl w))) =
           watchers w @ [\<lparr>w_job_id = new_job_id w, w_pid = p, w_out_file = job_out env (new_job_id w),
                          w_err_file = job_err env (new_job_id w)\<rparr>]"
    and "fst (submit_job env cmd lbl w) = Inr (new_job_id w)"
    using assms unfolding submit_job_def insert_job_def update_job_def new_job_id_def
    by (simp_all add: Let_def)
qed

lemma select_after_submit:
  assumes "select_job (db w) jid = Some j"
  shows "select_job (db (fst (snd (submit_job env cmd lbl w)))) jid = Some j"
proof (cases "popen env cmd")
  case None
  then show ?thesis using assms submit_job_failed[OF None, of lbl w] by simp
next
  case (Some p)
  show ?thesis using assms unfolding select_job_def submit_job_started(1)[OF Some]
    by (rule find_append_Some)
qed

lemma clean_rows_store:
  "clean_rows env rows conn fs = (Inr conn', fs') \<Longrightarrow>
     jobs conn' = filter (\<lambda>r. job_id r \<notin> job_id ` set rows) (jobs conn) \<and>
     notifications conn' = filter (\<lambda>n. n_job_id n \<notin> job_id ` set rows) (notifications conn) \<and>
     jobs_seq conn' = jobs_seq conn \<and> notifications_seq conn' = notifications_seq conn"
proof (induction rows arbitrary: conn fs)
  case Nil
  then show ?case by simp
next
  case (Cons row rows)
  from Cons.prems obtain fs1 where a: "delete_artifacts env row fs = Inr fs1"
    and r: "clean_rows env rows (delete_job_rows (job_id row) conn) fs1 = (Inr conn', fs')"
    by (auto split: sum.splits)
  from Cons.IH[OF r] show ?case
    by (auto simp: delete_job_rows_def intro!: filter_cong)
qed

lemma rows_to_clean_terminal:
  "r \<in> set (rows_to_clean keep conn) \<Longrightarrow> r \<in> set (jobs conn) \<and> terminal (status r)"
  unfolding rows_to_clean_def by (auto dest!: in_set_dropD)

lemma clean_jobs_db:
  "db (fst (snd (clean_jobs env keep w))) = db w \<or>
   (jobs (db (fst (snd (clean_jobs env keep w)))) =
       filter (\<lambda>r. job_id r \<notin> job_id ` set (rows_to_clean keep (db w))) (jobs (db w)) \<and>
    jobs_seq (db (fst (snd (clean_jobs env keep w)))) = jobs_seq (db w))"
proof -
  obtain res fs' where c: "clean_rows env (rows_to_clean keep (db w)) (db w) (files w) = (res, fs')"
    by (cases "clean_rows env (rows_to_clean keep (db w)) (db w) (files w)")
  show ?thesis
  proof (cases res)
    case (Inl e)
    then show ?thesis using c by (simp add: clean_jobs_def Let_def)
  next
    case (Inr conn')
    then show ?thesis using c clean_rows_store[of env _ "db w" "files w" conn' fs']
      by (simp add: clean_jobs_def Let_def)
  qed
qed

lemma watchers_clean_jobs [simp]: "watchers (fst (snd (clean_jobs env keep w))) = watchers w"
  by (simp add: clean_jobs_def Let_def split: prod.splits sum.splits)

lemma select_after_clean:
  assumes d: "distinct (map job_id (jobs (db w)))"
    and sel: "select_job (db w) jid = Some j" and nt: "\<not> terminal (status j)"
  shows "select_job (db (fst (snd (clean_jobs env keep w)))) jid = Some j"
proof -
  have mem: "j \<in> set (jobs (db w))" using sel select_job_mem by simp
  have "job_id j \<notin> job_id ` set (rows_to_clean keep (db w))"
  proof
    assume "job_id j \<in> job_id ` set (rows_to_clean keep (db w))"
    then obtain r where r: "r \<in> set (rows_to_clean keep (db w))" "job_id r = job_id j" by auto
    then have "r = j" using distinct_same_id[OF d _ mem] rows_to_clean_terminal by blast
    then show False using r(1) rows_to_clean_terminal nt by blast
  qed
  then show ?thesis using clean_jobs_db[of env keep w] sel
    by (auto simp: select_job_def intro: find_filter_Some)
qed

section \<open>Facts about whole operations\<close>

lemma exec_keeps_unwatched_row:
  assumes d: "distinct (map job_id (jobs (db w)))"
    and sel: "select_job (db w) jid = Some j"
    and run: "status j = ''running''" and nopid: "pid j = None"
    and nw: "jid \<notin> w_job_id ` set (watchers w)"
    and x: "x \<noteq> Cancel jid"
  shows "select_job (db (exec env x w)) jid = Some j"
proof (cases x)
  case (Submit cmd lbl)
  then show ?thesis using select_after_submit[OF sel] by simp
next
  case (Cancel k)
  then show ?thesis using select_after_cancel[OF sel, of env k] x by simp
next
  case Notify
  then show ?thesis using sel by (simp add: select_job_def)
next
  case (Clean keep)
  have "\<not> terminal (status j)" using run by (simp add: terminal_def)
  then show ?thesis using Clean select_after_clean[OF d sel] by simp
next
  case (WatcherExit wt)
  show ?thesis
  proof (cases "wt \<in> set (watchers w)")
    case True
    then have "w_job_id wt \<noteq> jid" using nw by auto
    then show ?thesis using WatcherExit True select_after_finalize[OF sel, of env wt "files w"]
      by simp
  next
    case False
    then show ?thesis using WatcherExit sel by simp
  qed
qed (use read_keeps_pidless[OF d sel nopid, of x env] in \<open>simp_all add: is_read_def\<close>)

lemma launched_no_watcher:
  assumes "launched w" "select_job (db w) jid = Some j" "pid j = None"
  shows "jid \<notin> w_job_id ` set (watchers w)"
proof
  assume "jid \<in> w_job_id ` set (watchers w)"
  then obtain wt where wt: "wt \<in> set (watchers w)" "w_job_id wt = jid" by auto
  have "j \<in> set (jobs (db w))" "job_id j = jid"
    using assms(2) select_job_mem select_job_id by auto
  moreover have "list_all (\<lambda>r. job_id r \<noteq> w_job_id wt \<or> pid r \<noteq> None) (jobs (db w))"
    using assms(1) wt(1) unfolding launched_def list_all_iff by blast
  ultimately show False using assms(3) wt(2) by (auto simp: list_all_iff)
qed

lemma launched_iff:
  "launched w \<longleftrightarrow>
     (\<forall>wt\<in>set (watchers w). w_job_id wt \<le> jobs_seq (db w) \<and>
        (\<forall>r\<in>set (jobs (db w)). job_id r = w_job_id wt \<longrightarrow> pid r \<noteq> None))"
  unfolding launched_def list_all_iff by blast

lemma launched_update:
  assumes "launched w" "\<And>r. job_id (f r) = job_id r" "\<And>r. pid (f r) = pid r"
  shows "launched (w\<lparr>db := update_job k f (db w)\<rparr>)"
  using assms unfolding launched_iff update_job_def by auto

lemma launched_jobs_cong:
  assumes "launched w" "watchers w' = watchers w" "jobs_seq (db w') = jobs_seq (db w)"
    "jobs (db w') = jobs (db w)"
  shows "launched w'"
  using assms unfolding launched_iff by auto

lemma launched_fix_rows:
  assumes "launched w" shows "launched (w\<lparr>db := fix_rows env S (db w)\<rparr>)"
  using assms unfolding launched_iff fix_rows_def by (auto simp: mark_done_def)

lemma exec_keeps_launched:
  assumes "launched w"
  shows "launched (exec env x w)"
proof (cases x)
  case (Submit cmd lbl)
  show ?thesis
  proof (cases "popen env cmd")
    case None
    show ?thesis using assms submit_job_failed[OF None, of lbl w] unfolding Submit exec.simps launched_iff
      by simp
  next
    case (Some p)
    have seq: "jobs_seq (db w) < new_job_id w"
      and fresh: "\<And>r. r \<in> set (jobs (db w)) \<Longrightarrow> job_id r \<noteq> new_job_id w"
      using next_rowid_fresh(1)[of _ "map job_id (jobs (db w))" "jobs_seq (db w)"]
        next_rowid_fresh(2)[of "jobs_seq (db w)" "map job_id (jobs (db w))"]
      unfolding new_job_id_def by fastforce+
    show ?thesis using assms seq fresh unfolding Submit launched_iff exec.simps
        submit_job_started(1,2,4)[OF Some]
      by auto
  qed
next
  case (Status k)
  then show ?thesis using assms launched_update[OF assms, of "mark_done env" k]
    by (auto simp: get_job_status_store mark_done_def split: option.splits)
next
  case (Result k tail)
  then show ?thesis using assms launched_update[OF assms, of "mark_done env" k]
    by (auto simp: get_job_result_store get_job_status_store mark_done_def split: option.splits)
next
  case (ListJobs limit)
  then show ?thesis using launched_fix_rows[OF assms] by (simp add: list_jobs_store)
next
  case (Cancel k)
  then show ?thesis using assms launched_update[OF assms, of "mark_cancelled env" k]
    by (auto simp: cancel_job_store mark_cancelled_def split: option.splits)
next
  case Notify
  have "jobs_seq (fst (deliver rows conn)) = jobs_seq conn" for rows conn
    by (induction rows arbitrary: conn) (simp_all add: split_beta mark_delivered_def)
  then have "jobs_seq (fst (get_notifications (db w))) = jobs_seq (db w)"
    by (simp add: get_notifications_def Let_def)
  then show ?thesis using Notify launched_jobs_cong[OF assms] by simp
next
  case (Clean keep)
  show ?thesis using assms clean_jobs_db[of env keep w] unfolding Clean exec.simps launched_iff
    by auto
next
  case (WatcherExit wt)
  have seq: "jobs_seq (finalize env wt fs conn) = jobs_seq conn" for fs conn
    by (simp add: finalize_def Let_def insert_notification_def update_job_def)
  show ?thesis
  proof (cases "wt \<in> set (watchers w)")
    case True
    show ?thesis using assms True unfolding WatcherExit exec.simps launched_iff
      by (auto simp: seq jobs_finalize update_job_def dest: notin_set_remove1)
  next
    case False
    then show ?thesis using assms WatcherExit by simp
  qed
qed

section \<open>Cancelling a job that never got a pid\<close>

text \<open>
  C10. Take a row recorded as running with a null pid, in a store with distinct ids and a
  system whose watchers all belong to rows with a pid. Cancelling it sends no signal at all,
  prints only the confirmation, and rewrites the row to \<^verbatim>\<open>cancelled\<close> with the completion
  time. Every other operation (a submission, a status, result or listing read, the
  cancellation of another job, a notification delivery, a cleanup, the end of a watcher)
  leaves the row exactly as it is.
\<close>

theorem only_cancel_ends_pidless_job:
  assumes "distinct (map job_id (jobs (db w)))"
    and "launched w"
    and "select_job (db w) jid = Some j"
    and "status j = ''running''"
    and "pid j = None"
  shows "cancel_job env jid (db w) =
           (update_job jid (mark_cancelled env) (db w), [], [JobCancelled jid])
       \<and> select_job (db (exec env (Cancel jid) w)) jid =
           Some (j\<lparr>status := ''cancelled'', finished_at := Some (clock env jid)\<rparr>)
       \<and> (\<forall>x. x \<noteq> Cancel jid \<longrightarrow> select_job (db (exec env x w)) jid = Some j)"
proof -
  have id: "job_id j = jid" using assms(3) select_job_id by simp
  have a: "cancel_job env jid (db w) =
           (update_job jid (mark_cancelled env) (db w), [], [JobCancelled jid])"
    using assms(3-5) cancel_job_running[OF assms(3,4), of env]
    by (auto simp: cancel_job_def prod_eq_iff)
  have b: "select_job (db (exec env (Cancel jid) w)) jid =
           Some (j\<lparr>status := ''cancelled'', finished_at := Some (clock env jid)\<rparr>)"
    using select_after_cancel[OF assms(3), of env jid] assms(4) id
    by (simp add: mark_cancelled_def)
  have c: "\<forall>x. x \<noteq> Cancel jid \<longrightarrow> select_job (db (exec env x w)) jid = Some j"
    using exec_keeps_unwatched_row[OF assms(1,3,4,5) launched_no_watcher[OF assms(2,3,5)]]
    by blast
  from a b c show ?thesis by simp
qed

theorem only_cancel_ends_pidless_job_witness:
  "distinct (map job_id (jobs (db (mk_world [mk_job 1 ''running'' None None]))))
   \<and> launched (mk_world [mk_job 1 ''running'' None None])
   \<and> select_job (db (mk_world [mk_job 1 ''running'' None None])) 1
       = Some (mk_job 1 ''running'' None None)
   \<and> fst (snd (cancel_job env_live 1 (db (mk_world [mk_job 1 ''running'' None None])))) = []
   \<and> select_job (db (exec env_live (Cancel 1) (mk_world [mk_job 1 ''running'' None None]))) 1
       = Some ((mk_job 1 ''running'' None None)
                 \<lparr>status := ''cancelled'', finished_at := Some (clock env_live 1)\<rparr>)
   \<and> select_job (db (exec env_live (ListJobs 5) (mk_world [mk_job 1 ''running'' None None]))) 1
       = Some (mk_job 1 ''running'' None None)
   \<and> select_job (db (exec env_live (Clean 0) (mk_world [mk_job 1 ''running'' None None]))) 1
       = Some (mk_job 1 ''running'' None None)"
proof -
  let ?j = "mk_job 1 ''running'' None None"
  let ?w = "mk_world [?j]"
  have d: "distinct (map job_id (jobs (db ?w)))"
    by (simp add: mk_world_def)
  have l: "launched ?w"
    by (simp add: mk_world_def launched_def)
  have sel: "select_job (db ?w) 1 = Some ?j"
    by (simp add: mk_world_def mk_job_def select_job_def)
  have st: "status ?j = ''running''" and np: "pid ?j = None"
    by (simp_all add: mk_job_def)
  note t = only_cancel_ends_pidless_job[OF d l sel st np, of env_live]
  have c1: "fst (snd (cancel_job env_live 1 (db ?w))) = []"
    using t[THEN conjunct1] by simp
  note c2 = t[THEN conjunct2, THEN conjunct1]
  have c3: "select_job (db (exec env_live (ListJobs 5) ?w)) 1 = Some ?j"
    and c4: "select_job (db (exec env_live (Clean 0) ?w)) 1 = Some ?j"
    using t[THEN conjunct2, THEN conjunct2] by blast+
  show ?thesis using d l sel c1 c2 c3 c4 by blast
qed

section \<open>Cancellation\<close>

lemma exec_keeps_pids:
  assumes "list_all (\<lambda>r. pid r \<noteq> None) (jobs (db w))"
  shows "list_all (\<lambda>r. pid r \<noteq> None) (jobs (db (exec env x w)))"
proof (cases x)
  case (Submit cmd lbl)
  show ?thesis
  proof (cases "popen env cmd")
    case None
    then show ?thesis using assms Submit submit_job_failed[OF None, of lbl w] by simp
  next
    case (Some p)
    show ?thesis using assms unfolding Submit exec.simps submit_job_started(1)[OF Some]
      by simp
  qed
next
  case (Status k)
  then show ?thesis using assms
    by (auto simp: list_all_iff get_job_status_store update_job_def mark_done_def
        split: option.splits)
next
  case (Result k tail)
  then show ?thesis using assms
    by (auto simp: list_all_iff get_job_result_store get_job_status_store update_job_def
        mark_done_def split: option.splits)
next
  case (ListJobs limit)
  then show ?thesis using assms
    by (auto simp: list_all_iff list_jobs_store fix_rows_def mark_done_def)
next
  case (Cancel k)
  then show ?thesis using assms
    by (auto simp: list_all_iff cancel_job_store update_job_def mark_cancelled_def
        split: option.splits)
next
  case Notify
  then show ?thesis using assms by simp
next
  case (Clean keep)
  show ?thesis using assms clean_jobs_db[of env keep w] unfolding Clean exec.simps list_all_iff
    by auto
next
  case (WatcherExit wt)
  show ?thesis using assms unfolding WatcherExit exec.simps list_all_iff
    by (auto simp: jobs_finalize update_job_def)
qed

lemma reachable_rows_have_pid:
  "reachable w \<Longrightarrow> list_all (\<lambda>r. pid r \<noteq> None) (jobs (db w))"
proof (induction rule: reachable.induct)
  case (fresh fs)
  show ?case by (simp add: empty_store_def)
next
  case (step w env x)
  then show ?case using exec_keeps_pids by blast
next
  case (written w fs)
  then show ?case by simp
qed

text \<open>
  C6. Cancelling a row recorded as running rewrites it to \<^verbatim>\<open>cancelled\<close> with the
  completion time, whatever the operating system answers. The signal goes to the process
  group of the row's pid: one \<^verbatim>\<open>SIGTERM\<close> to the group \<^verbatim>\<open>os.getpgid\<close> gives,
  delivered or not, and none when the group cannot be looked up because the process is
  gone. Every row the system holds has a pid (\<open>reachable_rows_have_pid\<close>); on a row
  without one (null or 0) no signal is attempted. Cancelling a row that is not running (so
  every terminal row) changes nothing, sends nothing and prints the status found.
\<close>

theorem cancel_job_marks_cancelled:
  assumes "select_job conn jid = Some j"
  shows "(status j = ''running'' \<longrightarrow>
            select_job (fst (cancel_job env jid conn)) jid =
              Some (j\<lparr>status := ''cancelled'', finished_at := Some (clock env jid)\<rparr>)
          \<and> fst (snd (cancel_job env jid conn)) =
              (case pid j of
                 None \<Rightarrow> []
               | Some p \<Rightarrow> if p = 0 then []
                          else (case getpgid env p of None \<Rightarrow> [] | Some g \<Rightarrow> [Killpg g])))
       \<and> (status j \<noteq> ''running'' \<longrightarrow>
            cancel_job env jid conn = (conn, [], [AlreadyStatus jid (status j)]))"
  using select_after_cancel[OF assms, of env jid] cancel_job_running(2)[OF assms, of env]
    cancel_job_not_running[OF assms, of env] select_job_id[OF assms]
  by (auto simp: mark_cancelled_def)

theorem cancel_job_marks_cancelled_witness:
  "select_job (db (mk_world [mk_job 1 ''running'' (Some 77) None, mk_job 2 ''done'' (Some 78) None])) 1
     = Some (mk_job 1 ''running'' (Some 77) None)
   \<and> select_job (fst (cancel_job env_live 1
        (db (mk_world [mk_job 1 ''running'' (Some 77) None, mk_job 2 ''done'' (Some 78) None])))) 1
     = Some ((mk_job 1 ''running'' (Some 77) None)
               \<lparr>status := ''cancelled'', finished_at := Some (clock env_live 1)\<rparr>)
   \<and> fst (snd (cancel_job env_live 1
        (db (mk_world [mk_job 1 ''running'' (Some 77) None, mk_job 2 ''done'' (Some 78) None]))))
     = [Killpg 77]
   \<and> select_job (fst (cancel_job env0 1
        (db (mk_world [mk_job 1 ''running'' (Some 77) None, mk_job 2 ''done'' (Some 78) None])))) 1
     = Some ((mk_job 1 ''running'' (Some 77) None)
               \<lparr>status := ''cancelled'', finished_at := Some (clock env0 1)\<rparr>)
   \<and> fst (snd (cancel_job env0 1
        (db (mk_world [mk_job 1 ''running'' (Some 77) None, mk_job 2 ''done'' (Some 78) None]))))
     = []
   \<and> cancel_job env_live 2
        (db (mk_world [mk_job 1 ''running'' (Some 77) None, mk_job 2 ''done'' (Some 78) None]))
     = (db (mk_world [mk_job 1 ''running'' (Some 77) None, mk_job 2 ''done'' (Some 78) None]),
        [], [AlreadyStatus 2 ''done''])"
proof -
  let ?conn = "db (mk_world [mk_job 1 ''running'' (Some 77) None, mk_job 2 ''done'' (Some 78) None])"
  have s1: "select_job ?conn 1 = Some (mk_job 1 ''running'' (Some 77) None)"
    and s2: "select_job ?conn 2 = Some (mk_job 2 ''done'' (Some 78) None)"
    by (simp_all add: mk_world_def mk_job_def select_job_def)
  have r1: "status (mk_job 1 ''running'' (Some 77) None) = ''running''"
    and r2: "status (mk_job 2 ''done'' (Some 78) None) \<noteq> ''running''"
    and p1: "pid (mk_job 1 ''running'' (Some 77) None) = Some 77"
    and st2: "status (mk_job 2 ''done'' (Some 78) None) = ''done''"
    by (simp_all add: mk_job_def)
  have live: "select_job (fst (cancel_job env_live 1 ?conn)) 1
        = Some ((mk_job 1 ''running'' (Some 77) None)
                  \<lparr>status := ''cancelled'', finished_at := Some (clock env_live 1)\<rparr>)
      \<and> fst (snd (cancel_job env_live 1 ?conn)) = [Killpg 77]"
    using cancel_job_marks_cancelled[OF s1, of env_live] r1 p1 by (simp add: env_live_def)
  have gone: "select_job (fst (cancel_job env0 1 ?conn)) 1
        = Some ((mk_job 1 ''running'' (Some 77) None)
                  \<lparr>status := ''cancelled'', finished_at := Some (clock env0 1)\<rparr>)
      \<and> fst (snd (cancel_job env0 1 ?conn)) = []"
    using cancel_job_marks_cancelled[OF s1, of env0] r1 p1 by (simp add: env0_def)
  have noop: "cancel_job env_live 2 ?conn = (?conn, [], [AlreadyStatus 2 ''done''])"
    using cancel_job_marks_cancelled[OF s2, of env_live] r2 st2 by simp
  from s1 live gone noop show ?thesis by blast
qed

section \<open>Notification delivery\<close>

lemma mark_all_empty [simp]: "mark_all {} conn = conn"
  by (simp add: mark_all_def)

lemma mark_all_mark: "mark_all S (mark_delivered k conn) = mark_all (insert k S) conn"
  unfolding mark_all_def mark_delivered_def by auto

lemma deliver_store: "fst (deliver rows conn) = mark_all (n_id ` set rows) conn"
  by (induction rows arbitrary: conn) (simp_all add: split_beta mark_all_mark)

lemma deliver_lines:
  "snd (deliver rows conn) = concat (map (\<lambda>n. [Message (message n), Blank]) rows)"
  by (induction rows arbitrary: conn) (simp_all add: split_beta)

lemma set_pending: "set (pending conn) = {n \<in> set (notifications conn). delivered n = 0}"
  by (auto simp: pending_def)

lemma pending_after_mark: "pending (mark_all (n_id ` set (pending conn)) conn) = []"
proof -
  have "filter (\<lambda>n. delivered n = 0)
          (notifications (mark_all (n_id ` set (pending conn)) conn)) = []"
    unfolding mark_all_def by (auto simp: filter_empty_conv set_pending)
  then show ?thesis by (simp add: pending_def)
qed

lemma get_notifications_store:
  "fst (get_notifications conn) = mark_all (n_id ` set (pending conn)) conn"
  by (simp add: get_notifications_def Let_def deliver_store)

text \<open>
  C7. \<^verbatim>\<open>get_notifications\<close> prints the message of every notification whose delivered
  flag is 0, each once, in the order of their creation times (or the line that nothing is
  pending when there is none). In the store it leaves, exactly the rows with the id of a
  printed row have their flag set to 1, so no row has the flag 0, and a second call right
  after the first prints that nothing is pending and changes nothing.
\<close>

theorem get_notifications_delivers_once:
  "snd (get_notifications conn) =
     (if pending conn = [] then [NoPending]
      else concat (map (\<lambda>n. [Message (message n), Blank]) (pending conn)))
   \<and> mset (pending conn) = mset (filter (\<lambda>n. delivered n = 0) (notifications conn))
   \<and> sorted (map n_created_at (pending conn))
   \<and> notifications (fst (get_notifications conn)) =
       map (\<lambda>n. if n_id n \<in> n_id ` set (pending conn) then n\<lparr>delivered := 1\<rparr> else n)
         (notifications conn)
   \<and> list_all (\<lambda>n. delivered n \<noteq> 0) (notifications (fst (get_notifications conn)))
   \<and> get_notifications (fst (get_notifications conn)) = (fst (get_notifications conn), [NoPending])"
proof -
  have a: "snd (get_notifications conn) =
     (if pending conn = [] then [NoPending]
      else concat (map (\<lambda>n. [Message (message n), Blank]) (pending conn)))"
    by (simp add: get_notifications_def Let_def deliver_lines)
  have b: "mset (pending conn) = mset (filter (\<lambda>n. delivered n = 0) (notifications conn))"
    by (simp add: pending_def)
  have c: "sorted (map n_created_at (pending conn))"
    by (simp add: pending_def)
  have d: "notifications (fst (get_notifications conn)) =
       map (\<lambda>n. if n_id n \<in> n_id ` set (pending conn) then n\<lparr>delivered := 1\<rparr> else n)
         (notifications conn)"
    by (simp add: get_notifications_store mark_all_def)
  have e: "list_all (\<lambda>n. delivered n \<noteq> 0) (notifications (fst (get_notifications conn)))"
    unfolding d by (auto simp: list_all_iff set_pending)
  have f: "get_notifications (fst (get_notifications conn))
             = (fst (get_notifications conn), [NoPending])"
  proof -
    have "pending (fst (get_notifications conn)) = []"
      using pending_after_mark[of conn] by (simp add: get_notifications_store)
    then show ?thesis by (simp add: get_notifications_def[of "fst (get_notifications conn)"])
  qed
  from a b c d e f show ?thesis by blast
qed

theorem get_notifications_delivers_once_witness:
  "snd (get_notifications notes0)
     = [Message ''Job #3 finished.'', Blank, Message ''Job #1 finished.'', Blank]
   \<and> map delivered (notifications (fst (get_notifications notes0))) = [1, 1, 1]
   \<and> snd (get_notifications (fst (get_notifications notes0))) = [NoPending]"
proof -
  have p: "pending notes0 =
             [mk_note 3 3 ''Job #3 finished.'' ''2026-01-01T00:00:07+00:00'' 0,
              mk_note 1 1 ''Job #1 finished.'' ''2026-01-01T00:00:09+00:00'' 0]"
    by (simp add: notes0_def mk_note_def pending_def)
  note t = get_notifications_delivers_once[of notes0]
  have a: "snd (get_notifications notes0)
     = [Message ''Job #3 finished.'', Blank, Message ''Job #1 finished.'', Blank]"
    using t[THEN conjunct1] unfolding p by (simp add: mk_note_def)
  have b: "map delivered (notifications (fst (get_notifications notes0))) = [1, 1, 1]"
    using t[THEN conjunct2, THEN conjunct2, THEN conjunct2, THEN conjunct1] unfolding p
    by (simp add: notes0_def mk_note_def)
  have c: "snd (get_notifications (fst (get_notifications notes0))) = [NoPending]"
    using t by simp
  from a b c show ?thesis by blast
qed

section \<open>Invariants of the system\<close>

lemma blank_running_iff:
  "blank_running conn \<longleftrightarrow>
     (\<forall>r\<in>set (jobs conn). status r = ''running'' \<longrightarrow>
        finished_at r = None \<and> exit_code r = None \<and> error r = None)"
  unfolding blank_running_def list_all_iff by blast

lemma blank_running_update:
  assumes "blank_running conn" "\<And>r. status (f r) \<noteq> ''running''"
  shows "blank_running (update_job k f conn)"
  using assms unfolding blank_running_iff update_job_def by auto

lemma blank_running_fix_rows:
  assumes "blank_running conn" shows "blank_running (fix_rows env S conn)"
  using assms unfolding blank_running_iff fix_rows_def by (auto simp: mark_done_def)

lemma blank_running_jobs_cong:
  "jobs conn' = jobs conn \<Longrightarrow> blank_running conn' = blank_running conn"
  by (simp add: blank_running_def)

lemma exec_keeps_blank_running:
  assumes "blank_running (db w)"
  shows "blank_running (db (exec env x w))"
proof (cases x)
  case (Submit cmd lbl)
  show ?thesis
  proof (cases "popen env cmd")
    case None
    then show ?thesis using assms Submit submit_job_failed[OF None, of lbl w] by simp
  next
    case (Some p)
    show ?thesis using assms unfolding Submit exec.simps blank_running_iff
        submit_job_started(1)[OF Some]
      by auto
  qed
next
  case (Status k)
  then show ?thesis using assms blank_running_update[OF assms, of "mark_done env" k]
    by (auto simp: get_job_status_store mark_done_def split: option.splits)
next
  case (Result k tail)
  then show ?thesis using assms blank_running_update[OF assms, of "mark_done env" k]
    by (auto simp: get_job_result_store get_job_status_store mark_done_def split: option.splits)
next
  case (ListJobs limit)
  then show ?thesis using blank_running_fix_rows[OF assms] by (simp add: list_jobs_store)
next
  case (Cancel k)
  then show ?thesis using assms blank_running_update[OF assms, of "mark_cancelled env" k]
    by (auto simp: cancel_job_store mark_cancelled_def split: option.splits)
next
  case Notify
  then show ?thesis using assms blank_running_jobs_cong[of "fst (get_notifications (db w))" "db w"]
    by simp
next
  case (Clean keep)
  show ?thesis using assms clean_jobs_db[of env keep w] unfolding Clean exec.simps blank_running_iff
    by auto
next
  case (WatcherExit wt)
  have "blank_running (finalize env wt (files w) (db w))"
    using blank_running_update[OF assms, of "finalized env (read_err_text (files w) (w_err_file wt))" "w_job_id wt"]
      blank_running_jobs_cong[OF jobs_finalize, of env wt "files w" "db w"]
    by (simp add: finalized_def)
  then show ?thesis using assms WatcherExit by simp
qed

lemma exec_keeps_distinct:
  assumes "distinct (map job_id (jobs (db w)))"
  shows "distinct (map job_id (jobs (db (exec env x w))))"
proof (cases x)
  case (Submit cmd lbl)
  show ?thesis
  proof (cases "popen env cmd")
    case None
    then show ?thesis using assms Submit submit_job_failed[OF None, of lbl w] by simp
  next
    case (Some p)
    have "new_job_id w \<notin> set (map job_id (jobs (db w)))"
      using next_rowid_fresh(1)[of "new_job_id w" "map job_id (jobs (db w))" "jobs_seq (db w)"]
      unfolding new_job_id_def by blast
    then show ?thesis using assms unfolding Submit exec.simps submit_job_started(1)[OF Some]
      by simp
  qed
next
  case (Cancel k)
  then show ?thesis using assms
    by (auto simp: cancel_job_store split: option.splits)
next
  case Notify
  then show ?thesis using assms by simp
next
  case (Clean keep)
  show ?thesis using assms clean_jobs_db[of env keep w] unfolding Clean exec.simps
    by (auto simp: distinct_map_filter)
next
  case (WatcherExit wt)
  have "map job_id (jobs (finalize env wt (files w) (db w))) = map job_id (jobs (db w))"
    unfolding jobs_finalize by simp
  then show ?thesis using assms WatcherExit by simp
qed (use assms read_keeps_ids[of x env w] in \<open>simp_all add: is_read_def\<close>)

lemma reachable_invariants:
  "reachable w \<Longrightarrow>
     distinct (map job_id (jobs (db w))) \<and> launched w \<and> blank_running (db w)"
proof (induction rule: reachable.induct)
  case (fresh fs)
  show ?case by (simp add: empty_store_def launched_def blank_running_def)
next
  case (step w env x)
  then show ?case
    using exec_keeps_distinct exec_keeps_launched exec_keeps_blank_running by blast
next
  case (written w fs)
  then show ?case by (simp add: launched_def)
qed

section \<open>Sample runs\<close>

lemma str_nat_digit: "n < 10 \<Longrightarrow> str_nat n = [''0123456789'' ! n]"
  by (simp add: str_nat.simps)

lemma submit_first_job: "submit_job env_live cmd None world0 =
   (Inr 1, \<lparr>db = \<lparr>jobs = [\<lparr>job_id = 1, command = cmd, label = None, status = ''running'',
               pid = Some 4242, created_at = ''2026-01-01T00:00:00+00:00'', finished_at = None,
               exit_code = None, output_file = Some ''/opt/code-intel/jobs/artifacts/job_1.out'', error = None\<rparr>],
          jobs_seq = 1, notifications = [], notifications_seq = 0\<rparr>,
     files = [''/opt/code-intel/jobs/artifacts/job_1.out'' \<mapsto> Text [],
              ''/opt/code-intel/jobs/artifacts/job_1.err'' \<mapsto> Text [],
              ''/opt/code-intel/jobs/artifacts/watcher_1.py''
                \<mapsto> Text (watcher_script env_live watcher1)],
     watchers = [watcher1]\<rparr>, [Submitted 1 4242])"
  by (simp add: submit_job_def insert_job_def update_job_def next_rowid_def world0_def empty_store_def
      env_live_def job_out_def job_err_def watcher_path_def ARTIFACTS_DIR_def JOBS_DIR_def
      str_nat_digit watcher1_def Let_def)

lemma env_live_simps:
  "clock env_live jid = ''2026-01-01T00:00:00+00:00''" "kill0_ok env_live p"
  "getpgid env_live p = Some p" "killpg_ok env_live g" "popen env_live cmd = Some 4242"
  "install_root env_live = ''/opt/code-intel''"
  by (simp_all add: env_live_def)

lemma env0_simps:
  "clock env0 jid = ''2026-01-01T00:00:00+00:00''" "\<not> kill0_ok env0 p"
  "getpgid env0 p = None" "\<not> killpg_ok env0 g" "popen env0 cmd = Some 4242"
  "install_root env0 = ''/opt/code-intel''"
  by (simp_all add: env0_def)

lemma watcher1_simps:
  "w_job_id watcher1 = 1" "w_pid watcher1 = 4242"
  "w_out_file watcher1 = ''/opt/code-intel/jobs/artifacts/job_1.out''"
  "w_err_file watcher1 = ''/opt/code-intel/jobs/artifacts/job_1.err''"
  by (simp_all add: watcher1_def)

section \<open>The reconciler on a read\<close>

text \<open>
  C4. Take the row a read finds under an id, in a store with distinct ids. If the row is
  recorded as running and the liveness probe on its stored pid fails, then the reconciler
  rewrites it, and so do the status check and the result fetch of that id and every listing
  that shows the row: afterwards the row has the status \<^verbatim>\<open>done\<close> and the completion time,
  and every other column as before, so the exit code and the error text are left as they
  were (null in every running row of a reachable state, by \<open>reachable_invariants\<close>). If the
  row is not recorded as running, the reconciler returns it and the store unchanged, and so
  do the three reads.
\<close>

theorem reconciler_corrects_stale_job:
  assumes d: "distinct (map job_id (jobs conn))" and sel: "select_job conn jid = Some j"
  shows
   "(status j = ''running'' \<and> pid j = Some p \<and> p \<noteq> 0 \<and> \<not> kill0_ok env p \<longrightarrow>
       check_and_update_status env conn j
         = (update_job jid (mark_done env) conn, j\<lparr>status := ''done''\<rparr>)
     \<and> select_job (fst (get_job_status env jid conn)) jid
         = Some (j\<lparr>status := ''done'', finished_at := Some (clock env jid)\<rparr>)
     \<and> select_job (fst (get_job_result env jid tail fs conn)) jid
         = Some (j\<lparr>status := ''done'', finished_at := Some (clock env jid)\<rparr>)
     \<and> (j \<in> set (recent_jobs limit conn) \<longrightarrow>
          select_job (fst (list_jobs env limit conn)) jid
            = Some (j\<lparr>status := ''done'', finished_at := Some (clock env jid)\<rparr>)))
  \<and> (status j \<noteq> ''running'' \<longrightarrow>
       check_and_update_status env conn j = (conn, j)
     \<and> get_job_status env jid conn = (conn, [ShowJob j])
     \<and> get_job_result env jid tail fs conn = (conn, [show_result fs jid tail j])
     \<and> select_job (fst (list_jobs env limit conn)) jid = Some j
     \<and> (j \<in> set (recent_jobs limit conn) \<longrightarrow> ListedJob j \<in> set (snd (list_jobs env limit conn))))"
proof -
  have id: "job_id j = jid" and mem: "j \<in> set (jobs conn)"
    using sel select_job_id select_job_mem by auto
  have A: "check_and_update_status env conn j
         = (update_job jid (mark_done env) conn, j\<lparr>status := ''done''\<rparr>)"
    and B: "select_job (fst (get_job_status env jid conn)) jid
         = Some (j\<lparr>status := ''done'', finished_at := Some (clock env jid)\<rparr>)"
    and C: "select_job (fst (get_job_result env jid tail fs conn)) jid
         = Some (j\<lparr>status := ''done'', finished_at := Some (clock env jid)\<rparr>)"
    and D: "j \<in> set (recent_jobs limit conn) \<Longrightarrow>
          select_job (fst (list_jobs env limit conn)) jid
            = Some (j\<lparr>status := ''done'', finished_at := Some (clock env jid)\<rparr>)"
    if st: "status j = ''running'' \<and> pid j = Some p \<and> p \<noteq> 0 \<and> \<not> kill0_ok env p"
  proof -
    have stale: "stale env j" using st by (simp add: stale_def)
    show "check_and_update_status env conn j
         = (update_job jid (mark_done env) conn, j\<lparr>status := ''done''\<rparr>)"
      using stale id by (simp add: check_and_update_status_eq)
    show "select_job (fst (get_job_status env jid conn)) jid
         = Some (j\<lparr>status := ''done'', finished_at := Some (clock env jid)\<rparr>)"
      using select_after_status[OF sel, of env jid] stale id by (simp add: mark_done_def)
    then show "select_job (fst (get_job_result env jid tail fs conn)) jid
         = Some (j\<lparr>status := ''done'', finished_at := Some (clock env jid)\<rparr>)"
      by (simp add: get_job_result_store)
    show "select_job (fst (list_jobs env limit conn)) jid
            = Some (j\<lparr>status := ''done'', finished_at := Some (clock env jid)\<rparr>)"
      if "j \<in> set (recent_jobs limit conn)"
    proof -
      have "jid \<in> job_id ` {r \<in> set (recent_jobs limit conn). stale env r}"
        using that stale id by auto
      then show ?thesis using select_after_list[OF sel, of env limit] id
        by (simp add: mark_done_def)
    qed
  qed
  have E: "check_and_update_status env conn j = (conn, j)"
    and F: "get_job_status env jid conn = (conn, [ShowJob j])"
    and G: "get_job_result env jid tail fs conn = (conn, [show_result fs jid tail j])"
    and H: "select_job (fst (list_jobs env limit conn)) jid = Some j"
    and I: "j \<in> set (recent_jobs limit conn) \<Longrightarrow> ListedJob j \<in> set (snd (list_jobs env limit conn))"
    if st: "status j \<noteq> ''running''"
  proof -
    have ns: "\<not> stale env j" using st by (simp add: stale_def)
    show e: "check_and_update_status env conn j = (conn, j)"
      using ns by (simp add: check_and_update_status_eq)
    show "get_job_status env jid conn = (conn, [ShowJob j])"
      using sel e by (simp add: get_job_status_def)
    show "get_job_result env jid tail fs conn = (conn, [show_result fs jid tail j])"
      using sel e by (simp add: get_job_result_def)
    have "jid \<notin> job_id ` {r \<in> set (recent_jobs limit conn). stale env r}"
    proof
      assume "jid \<in> job_id ` {r \<in> set (recent_jobs limit conn). stale env r}"
      then obtain r where r: "r \<in> set (recent_jobs limit conn)" "stale env r" "job_id r = jid"
        by auto
      then have "r \<in> set (jobs conn)" using recent_jobs_subset by blast
      then have "r = j" using distinct_same_id[OF d _ mem] r(3) id by simp
      then show False using r(2) ns by simp
    qed
    then show "select_job (fst (list_jobs env limit conn)) jid = Some j"
      using select_after_list[OF sel, of env limit] by simp
    show "ListedJob j \<in> set (snd (list_jobs env limit conn))"
      if "j \<in> set (recent_jobs limit conn)"
    proof -
      have ne: "recent_jobs limit conn \<noteq> []" using that by auto
      have "ListedJob (if stale env j then j\<lparr>status := ''done''\<rparr> else j)
              \<in> set (snd (reconcile_rows env (recent_jobs limit conn) conn))"
        unfolding reconcile_rows_lines set_map using that by (rule imageI)
      then show ?thesis using ne ns by (simp add: list_jobs_def Let_def)
    qed
  qed
  from A B C D E F G H I show ?thesis by blast
qed

theorem reconciler_corrects_stale_job_witness:
  "select_job (db (mk_world [mk_job 1 ''running'' (Some 77) None, mk_job 2 ''done'' (Some 78) None])) 1
     = Some (mk_job 1 ''running'' (Some 77) None)
   \<and> \<not> kill0_ok env0 77
   \<and> select_job (fst (get_job_status env0 1
        (db (mk_world [mk_job 1 ''running'' (Some 77) None, mk_job 2 ''done'' (Some 78) None])))) 1
     = Some ((mk_job 1 ''running'' (Some 77) None)
               \<lparr>status := ''done'', finished_at := Some (clock env0 1)\<rparr>)
   \<and> select_job (fst (list_jobs env0 10
        (db (mk_world [mk_job 1 ''running'' (Some 77) None, mk_job 2 ''done'' (Some 78) None])))) 1
     = Some ((mk_job 1 ''running'' (Some 77) None)
               \<lparr>status := ''done'', finished_at := Some (clock env0 1)\<rparr>)
   \<and> exit_code ((mk_job 1 ''running'' (Some 77) None)
               \<lparr>status := ''done'', finished_at := Some (clock env0 1)\<rparr>) = None
   \<and> get_job_status env0 2
        (db (mk_world [mk_job 1 ''running'' (Some 77) None, mk_job 2 ''done'' (Some 78) None]))
     = (db (mk_world [mk_job 1 ''running'' (Some 77) None, mk_job 2 ''done'' (Some 78) None]),
        [ShowJob (mk_job 2 ''done'' (Some 78) None)])"
proof -
  let ?j1 = "mk_job 1 ''running'' (Some 77) None"
  let ?j2 = "mk_job 2 ''done'' (Some 78) None"
  let ?conn = "db (mk_world [?j1, ?j2])"
  have d: "distinct (map job_id (jobs ?conn))"
    by (simp add: mk_world_def mk_job_def)
  have s1: "select_job ?conn 1 = Some ?j1" and s2: "select_job ?conn 2 = Some ?j2"
    by (simp_all add: mk_world_def mk_job_def select_job_def)
  have st: "status ?j1 = ''running'' \<and> pid ?j1 = Some 77 \<and> (77::int) \<noteq> 0 \<and> \<not> kill0_ok env0 77"
    by (simp add: mk_job_def env0_simps)
  have nr: "status ?j2 \<noteq> ''running''"
    by (simp add: mk_job_def)
  have rec: "?j1 \<in> set (recent_jobs 10 ?conn)"
    by (simp add: recent_jobs_def mk_world_def mk_job_def)
  note t1 = reconciler_corrects_stale_job[OF d s1, of 77 env0 0 Map.empty 10, THEN conjunct1, rule_format, OF st]
  note t2 = reconciler_corrects_stale_job[OF d s2, of 0 env0 0 Map.empty 10, THEN conjunct2, rule_format, OF nr]
  have a: "select_job (fst (get_job_status env0 1 ?conn)) 1
             = Some (?j1\<lparr>status := ''done'', finished_at := Some (clock env0 1)\<rparr>)"
    using t1 by blast
  have b: "select_job (fst (list_jobs env0 10 ?conn)) 1
             = Some (?j1\<lparr>status := ''done'', finished_at := Some (clock env0 1)\<rparr>)"
    using t1 rec by blast
  have c: "exit_code (?j1\<lparr>status := ''done'', finished_at := Some (clock env0 1)\<rparr>) = None"
    by (simp add: mk_job_def)
  have e: "get_job_status env0 2 ?conn = (?conn, [ShowJob ?j2])"
    using t2 by blast
  from s1 st a b c e show ?thesis by blast
qed

section \<open>The exit code the watcher records\<close>

lemma strip_nil_iff: "strip s = [] \<longleftrightarrow> list_all isspace s"
proof -
  have "(\<forall>x\<in>set (dropWhile isspace s). isspace x) \<longleftrightarrow> dropWhile isspace s = []"
    using hd_dropWhile[of isspace s] by (metis empty_iff list.set(1) list.set_sel(1))
  then show ?thesis
    unfolding strip_def by (simp add: dropWhile_eq_Nil_conv list_all_iff)
qed

lemma strip_replicate: "\<not> isspace c \<Longrightarrow> strip (replicate n c) = replicate n c"
  unfolding strip_def by (simp add: dropWhile_replicate)

lemma finalize_writes_exit_code:
  assumes "select_job conn (w_job_id wt) = Some j"
  shows "\<exists>r. select_job (finalize env wt fs conn) (w_job_id wt) = Some r
           \<and> status r = ''done''
           \<and> (case fs (w_err_file wt) of
                 Some (Text t) \<Rightarrow>
                   if strip t = [] then exit_code r = Some 0 \<and> error r = error j
                   else exit_code r = Some 1 \<and> error r = Some (take 500 (strip t))
               | Some Undecodable \<Rightarrow> exit_code r = Some 0 \<and> error r = error j
               | None \<Rightarrow> exit_code r = Some 0 \<and> error r = error j)"
  using select_after_finalize[OF assms, of env wt fs]
  by (auto simp: finalized_def read_err_text_def split: option.splits content.splits)

lemma after_stderr_simps:
  "db (after_stderr c) = db (fst (snd (submit_job env_live ''cat image.png >&2'' None world0)))"
  "watchers (after_stderr c) = [watcher1]"
  "files (after_stderr c) (w_err_file watcher1) = Some c"
  "files (after_stderr c) ''/opt/code-intel/jobs/artifacts/job_1.err'' = Some c"
  "files (after_stderr c) ''/opt/code-intel/jobs/artifacts/job_1.out'' = Some (Text [])"
  by (simp_all add: after_stderr_def submit_first_job watcher1_simps)

text \<open>
  C5. The script computes \<^verbatim>\<open>exit_code = 1 if err_text else 0\<close> from the error artifact,
  and for an artifact it can read as text the row gets what the claim says: 1 and the
  excerpt of at most 500 characters when the stripped text is not empty, 0 when it is
  (\<open>finalize_writes_exit_code\<close>). But the artifact is read in text mode under a bare
  \<^verbatim>\<open>except: pass\<close>. Job 1 writes bytes to its error stream that are no valid text; the
  read raises, \<^verbatim>\<open>err_text\<close> stays empty, and the job is recorded with exit code 0, no
  error excerpt and the message of a clean finish. The same job writing a line of text is
  recorded with exit code 1.
\<close>

theorem undecodable_stderr_gets_exit_code_0:
  "files (after_stderr Undecodable) (w_err_file watcher1) = Some Undecodable
   \<and> map status (jobs (db (exec env0 (WatcherExit watcher1) (after_stderr Undecodable))))
       = [''done'']
   \<and> map exit_code (jobs (db (exec env0 (WatcherExit watcher1) (after_stderr Undecodable))))
       = [Some 0]
   \<and> map error (jobs (db (exec env0 (WatcherExit watcher1) (after_stderr Undecodable))))
       = [None]
   \<and> map message (notifications (db (exec env0 (WatcherExit watcher1)
                                        (after_stderr Undecodable))))
       = [''Job #1 finished.'' @ newline # ''(no output)'']
   \<and> map exit_code (jobs (db (exec env0 (WatcherExit watcher1)
                                  (after_stderr (Text ''error: bad header'')))))
       = [Some 1]
   \<and> map error (jobs (db (exec env0 (WatcherExit watcher1)
                              (after_stderr (Text ''error: bad header'')))))
       = [Some ''error: bad header'']"
  by (simp add: after_stderr_simps submit_first_job finalize_def read_err_text_def
      read_preview_def update_job_def insert_notification_def Let_def env0_simps watcher1_simps
      strip_def isspace_def str_nat_digit)

section \<open>Monotonic status and the watcher\<close>

text \<open>
  C2. The watcher writes \<^verbatim>\<open>status='done'\<close> to the row of its job whatever the row's
  status is, while the reconciler and the cancellation both test for \<^verbatim>\<open>running\<close> first.
  A job is submitted and cancelled; the signal ends its process; the watcher sees the
  process gone and finalizes: the terminal status \<^verbatim>\<open>cancelled\<close> has become \<^verbatim>\<open>done\<close>.
\<close>

theorem watcher_overwrites_cancelled:
  "map status (jobs (db (run [(env_live, Submit ''sleep 60'' None), (env_live, Cancel 1)]
                           world0)))
     = [''cancelled'']
   \<and> terminal ''cancelled''
   \<and> map status (jobs (db (run [(env_live, Submit ''sleep 60'' None), (env_live, Cancel 1),
                                (env0, WatcherExit watcher1)] world0)))
     = [''done'']"
  by (simp add: submit_first_job cancel_job_def select_job_def update_job_def env_live_simps
      env0_simps finalize_def insert_notification_def Let_def watcher1_simps read_err_text_def
      strip_def terminal_def)

section \<open>One watcher, one notification\<close>

lemma finalize_once_iff:
  "finalize_once w \<longleftrightarrow>
     distinct (map w_job_id (watchers w)) \<and>
     distinct (map n_job_id (notifications (db w))) \<and>
     (\<forall>k\<in>set (map w_job_id (watchers w)). k \<le> jobs_seq (db w)) \<and>
     (\<forall>k\<in>set (map n_job_id (notifications (db w))).
        k \<le> jobs_seq (db w) \<and> k \<notin> set (map w_job_id (watchers w)))"
  unfolding finalize_once_def list_all_iff by simp

lemma finalize_once_cong:
  assumes "finalize_once w" "watchers w' = watchers w" "jobs_seq (db w') = jobs_seq (db w)"
    "map n_job_id (notifications (db w')) = map n_job_id (notifications (db w))"
  shows "finalize_once w'"
  using assms unfolding finalize_once_def by simp

lemma notifications_update_job [simp]: "notifications (update_job k f conn) = notifications conn"
  by (simp add: update_job_def)

lemma jobs_seq_update_job [simp]: "jobs_seq (update_job k f conn) = jobs_seq conn"
  "notifications_seq (update_job k f conn) = notifications_seq conn"
  by (simp_all add: update_job_def)

lemma notifications_fix_rows [simp]: "notifications (fix_rows env S conn) = notifications conn"
  "jobs_seq (fix_rows env S conn) = jobs_seq conn"
  by (simp_all add: fix_rows_def)

lemma notifications_finalize:
  "notifications (finalize env wt fs conn) =
     notifications conn @
       [\<lparr>n_id = next_rowid (notifications_seq conn) (map n_id (notifications conn)),
         n_job_id = w_job_id wt,
         message = ''Job #'' @ str_nat (w_job_id wt) @ '' '' @
                   (if read_err_text fs (w_err_file wt) \<noteq> [] then ''finished with warnings''
                    else ''finished'') @ ''.'' @ newline # read_preview fs (w_out_file wt),
         n_created_at = clock env (w_job_id wt), delivered = 0\<rparr>]"
  by (simp add: finalize_def insert_notification_def Let_def)

lemma jobs_seq_finalize [simp]: "jobs_seq (finalize env wt fs conn) = jobs_seq conn"
  by (simp add: finalize_def insert_notification_def Let_def)

lemma get_notifications_ids:
  "map n_job_id (notifications (fst (get_notifications conn))) = map n_job_id (notifications conn)"
  "jobs_seq (fst (get_notifications conn)) = jobs_seq conn"
  by (simp_all add: get_notifications_store mark_all_def comp_def cong: map_cong)

lemma clean_jobs_notifications:
  "set (notifications (db (fst (snd (clean_jobs env keep w))))) \<subseteq> set (notifications (db w)) \<and>
   (distinct (map n_job_id (notifications (db w))) \<longrightarrow>
      distinct (map n_job_id (notifications (db (fst (snd (clean_jobs env keep w))))))) \<and>
   jobs_seq (db (fst (snd (clean_jobs env keep w)))) = jobs_seq (db w)"
proof -
  obtain res fs' where c: "clean_rows env (rows_to_clean keep (db w)) (db w) (files w) = (res, fs')"
    by (cases "clean_rows env (rows_to_clean keep (db w)) (db w) (files w)")
  show ?thesis
  proof (cases res)
    case (Inl e)
    then show ?thesis using c by (simp add: clean_jobs_def Let_def)
  next
    case (Inr conn')
    then show ?thesis using c clean_rows_store[of env _ "db w" "files w" conn' fs']
      by (auto simp: clean_jobs_def Let_def distinct_map_filter)
  qed
qed

lemma exec_keeps_finalize_once:
  assumes "finalize_once w"
  shows "finalize_once (exec env x w)"
proof (cases x)
  case (Submit cmd lbl)
  show ?thesis
  proof (cases "popen env cmd")
    case None
    then show ?thesis using assms submit_job_failed[OF None, of lbl w]
      unfolding Submit exec.simps finalize_once_iff by simp
  next
    case (Some p)
    have seq: "jobs_seq (db w) < new_job_id w"
      using next_rowid_fresh(2)[of "jobs_seq (db w)" "map job_id (jobs (db w))"]
      unfolding new_job_id_def by simp
    show ?thesis using assms seq unfolding Submit exec.simps finalize_once_iff
        submit_job_started(2,3,4)[OF Some]
      by (auto simp: image_iff)
  qed
next
  case (Status k)
  then show ?thesis using finalize_once_cong[OF assms]
    by (auto simp: get_job_status_store split: option.splits)
next
  case (Result k tail)
  then show ?thesis using finalize_once_cong[OF assms]
    by (auto simp: get_job_result_store get_job_status_store split: option.splits)
next
  case (ListJobs limit)
  then show ?thesis using finalize_once_cong[OF assms] by (simp add: list_jobs_store)
next
  case (Cancel k)
  then show ?thesis using finalize_once_cong[OF assms]
    by (auto simp: cancel_job_store split: option.splits)
next
  case Notify
  then show ?thesis using finalize_once_cong[OF assms] get_notifications_ids by simp
next
  case (Clean keep)
  show ?thesis using assms clean_jobs_notifications[of env keep w]
    unfolding Clean exec.simps finalize_once_iff by auto
next
  case (WatcherExit wt)
  show ?thesis
  proof (cases "wt \<in> set (watchers w)")
    case True
    have d: "distinct (map w_job_id (watchers w))" using assms by (simp add: finalize_once_iff)
    have inj: "inj_on w_job_id (set (watchers w))" and dw: "distinct (watchers w)"
      using d by (simp_all add: distinct_map)
    have rest: "w_job_id wt \<notin> w_job_id ` set (remove1 wt (watchers w))"
    proof
      assume "w_job_id wt \<in> w_job_id ` set (remove1 wt (watchers w))"
      then obtain v where v: "v \<in> set (remove1 wt (watchers w))" "w_job_id v = w_job_id wt" by auto
      then have "v \<in> set (watchers w)" "v \<noteq> wt" using dw by auto
      then show False using inj True v(2) by (auto dest: inj_onD)
    qed
    have d': "distinct (map w_job_id (remove1 wt (watchers w)))"
      using d by (simp add: distinct_map inj_on_def)
    have sub: "set (remove1 wt (watchers w)) \<subseteq> set (watchers w)" by (rule set_remove1_subset)
    have f1: "w_job_id wt \<notin> n_job_id ` set (notifications (db w))"
      using assms True unfolding finalize_once_iff by force
    have f2: "n_job_id n \<noteq> w_job_id v"
      if "n \<in> set (notifications (db w))" "v \<in> set (remove1 wt (watchers w))" for n v
      using assms sub that unfolding finalize_once_iff by force
    show ?thesis using assms True rest d' sub f1 f2 unfolding WatcherExit exec.simps finalize_once_iff
      by (auto simp: notifications_finalize)
  next
    case False
    then show ?thesis using assms WatcherExit by simp
  qed
qed

lemma reachable_finalize_once: "reachable w \<Longrightarrow> finalize_once w"
proof (induction rule: reachable.induct)
  case (fresh fs)
  show ?case by (simp add: finalize_once_def empty_store_def)
next
  case (step w env x)
  then show ?case using exec_keeps_finalize_once by blast
next
  case (written w fs)
  then show ?case by (simp add: finalize_once_def)
qed

text \<open>
  C3. The finalize step of the watcher script writes without looking at the job: it has
  no test for a job that is terminal already, unlike the reconciler and the cancellation.
  Within the system a watcher finalizes once (\<open>reachable_finalize_once\<close>), so the step
  meets a terminal job when the script is run again. A job is submitted and its watcher
  finalizes it: the job is done and has one notification. The finalize step run once more
  on that state adds a second notification for the same job.
\<close>

theorem rerun_finalize_adds_notification:
  "map status (jobs (db (run [(env_live, Submit ''sleep 60'' None),
                              (env0, WatcherExit watcher1)] world0)))
     = [''done'']
   \<and> length (notifications (db (run [(env_live, Submit ''sleep 60'' None),
                                       (env0, WatcherExit watcher1)] world0))) = 1
   \<and> map n_job_id (notifications (finalize env0 watcher1
        (files (run [(env_live, Submit ''sleep 60'' None), (env0, WatcherExit watcher1)] world0))
        (db (run [(env_live, Submit ''sleep 60'' None), (env0, WatcherExit watcher1)] world0))))
     = [1, 1]"
  by (simp add: submit_first_job select_job_def update_job_def env_live_simps env0_simps
      finalize_def insert_notification_def Let_def next_rowid_def watcher1_simps
      read_err_text_def strip_def)

section \<open>Facts about decimal strings and paths\<close>

lemma digit_chars: "n < 10 \<Longrightarrow> ''0123456789'' ! n \<in> set ''0123456789''"
  by (rule nth_mem) simp

lemma str_nat_chars: "set (str_nat n) \<subseteq> set ''0123456789''"
proof (induction n rule: str_nat.induct)
  case (1 n)
  show ?case
  proof (cases "n < 10")
    case True
    then show ?thesis using digit_chars[of n] by (subst str_nat.simps) simp
  next
    case False
    have "n mod 10 < 10" by simp
    then show ?thesis using 1 False digit_chars[of "n mod 10"]
      by (subst str_nat.simps) simp
  qed
qed

lemma str_nat_no_sep: "CHR ''/'' \<notin> set (str_nat n)" "CHR ''.'' \<notin> set (str_nat n)"
  using str_nat_chars[of n] by auto

lemma str_nat_nonempty: "str_nat n \<noteq> []"
  by (subst str_nat.simps) simp

lemma digit_inj: "a < 10 \<Longrightarrow> b < 10 \<Longrightarrow> ''0123456789'' ! a = ''0123456789'' ! b \<Longrightarrow> a = b"
proof -
  have "distinct ''0123456789''" by simp
  moreover have "length ''0123456789'' = 10" by simp
  ultimately show "a < 10 \<Longrightarrow> b < 10 \<Longrightarrow> ''0123456789'' ! a = ''0123456789'' ! b \<Longrightarrow> a = b"
    by (metis nth_eq_iff_index_eq)
qed

lemma str_nat_inj: "str_nat n = str_nat m \<Longrightarrow> n = m"
proof (induction n arbitrary: m rule: str_nat.induct)
  case (1 n)
  show ?case
  proof (cases "n < 10")
    case True
    show ?thesis
    proof (cases "m < 10")
      case mt: True
      then show ?thesis using True 1(2) digit_inj[of n m]
        by (simp add: str_nat.simps[of n] str_nat.simps[of m])
    next
      case False
      then show ?thesis using True 1(2) str_nat_nonempty[of "m div 10"]
        by (simp add: str_nat.simps[of n] str_nat.simps[of m])
    qed
  next
    case False
    show ?thesis
    proof (cases "m < 10")
      case True
      then show ?thesis using False 1(2) str_nat_nonempty[of "n div 10"]
        by (simp add: str_nat.simps[of n] str_nat.simps[of m])
    next
      case mf: False
      have e: "str_nat (n div 10) @ [''0123456789'' ! (n mod 10)]
             = str_nat (m div 10) @ [''0123456789'' ! (m mod 10)]"
        using False mf 1(2) by (simp add: str_nat.simps[of n] str_nat.simps[of m])
      then have "str_nat (n div 10) = str_nat (m div 10)"
        and "''0123456789'' ! (n mod 10) = ''0123456789'' ! (m mod 10)" by simp_all
      then have "n div 10 = m div 10" and "n mod 10 = m mod 10"
        using 1(1)[OF False] digit_inj[of "n mod 10" "m mod 10"] by simp_all
      then show ?thesis by (metis div_mult_mod_eq)
    qed
  qed
qed

lemma takeWhile_upto:
  "c \<notin> set xs \<Longrightarrow> takeWhile (\<lambda>x. x \<noteq> c) (rev xs @ c # ys) = rev xs"
  by (auto simp: takeWhile_tail takeWhile_eq_all_conv)

lemma dropWhile_upto:
  "c \<notin> set xs \<Longrightarrow> dropWhile (\<lambda>x. x \<noteq> c) (rev xs @ c # ys) = c # ys"
  by (auto simp: dropWhile_append3)

lemma path_name_join: "CHR ''/'' \<notin> set name \<Longrightarrow> path_name (dir @ CHR ''/'' # name) = name"
  unfolding path_name_def by (simp add: takeWhile_upto)

lemma path_dir_join: "CHR ''/'' \<notin> set name \<Longrightarrow> path_dir (dir @ CHR ''/'' # name) = dir @ ''/''"
  unfolding path_dir_def by (simp add: dropWhile_upto)

lemma path_suffix_ext:
  "CHR ''.'' \<notin> set ext \<Longrightarrow> ext \<noteq> [] \<Longrightarrow> stem \<noteq> [] \<Longrightarrow>
     path_suffix (stem @ CHR ''.'' # ext) = CHR ''.'' # ext"
  unfolding path_suffix_def by (cases stem) (simp_all add: takeWhile_upto Let_def)

lemma with_suffix_join:
  assumes "CHR ''/'' \<notin> set stem" "CHR ''/'' \<notin> set ext" "CHR ''.'' \<notin> set ext" "ext \<noteq> []" "stem \<noteq> []"
  shows "with_suffix (dir @ CHR ''/'' # stem @ CHR ''.'' # ext) new = Inr (dir @ CHR ''/'' # stem @ new)"
proof -
  have n: "CHR ''/'' \<notin> set (stem @ CHR ''.'' # ext)" using assms by simp
  have "path_suffix (path_name (dir @ CHR ''/'' # stem @ CHR ''.'' # ext)) = CHR ''.'' # ext"
    using path_name_join[OF n, of dir] path_suffix_ext[OF assms(3,4,5)] by simp
  then show ?thesis
    unfolding with_suffix_def using path_name_join[OF n, of dir] path_dir_join[OF n, of dir]
    by (simp add: Let_def)
qed

lemma with_suffix_job_out:
  "with_suffix (job_out env k) ''.out'' = Inr (job_out env k)"
  "with_suffix (job_out env k) ''.err'' = Inr (job_err env k)"
proof -
  have "job_out env k = ARTIFACTS_DIR env @ CHR ''/'' # (''job_'' @ str_nat k) @ CHR ''.'' # ''out''"
    by (simp add: job_out_def)
  moreover have "CHR ''/'' \<notin> set (''job_'' @ str_nat k)" using str_nat_no_sep by simp
  ultimately have "with_suffix (job_out env k) new
           = Inr (ARTIFACTS_DIR env @ CHR ''/'' # (''job_'' @ str_nat k) @ new)" for new
    using with_suffix_join[of "''job_'' @ str_nat k" "''out''" "ARTIFACTS_DIR env" new] by simp
  then show "with_suffix (job_out env k) ''.out'' = Inr (job_out env k)"
    "with_suffix (job_out env k) ''.err'' = Inr (job_err env k)"
    by (simp_all add: job_out_def job_err_def)
qed

lemma job_paths_inj:
  "job_out env k = job_out env k' \<longleftrightarrow> k = k'"
  "job_err env k = job_err env k' \<longleftrightarrow> k = k'"
  "watcher_path env k = watcher_path env k' \<longleftrightarrow> k = k'"
  using str_nat_inj by (auto simp: job_out_def job_err_def watcher_path_def)

lemma job_paths_apart:
  "job_out env k \<noteq> job_err env k'"
  "job_out env k \<noteq> watcher_path env k'"
  "job_err env k \<noteq> watcher_path env k'"
  by (simp_all add: job_out_def job_err_def watcher_path_def)

section \<open>Facts about cleanup\<close>

lemma unlink_if_exists_eq: "unlink_if_exists p fs = without {p} fs"
  unfolding unlink_if_exists_def without_def by (auto split: option.splits)

lemma without_without: "without S (without T fs) = without (S \<union> T) fs"
  unfolding without_def by auto

lemma job_out_nonempty: "job_out env k \<noteq> []"
  by (simp add: job_out_def)

lemma delete_artifacts_recorded:
  assumes "output_file row = Some (job_out env (job_id row))"
  shows "delete_artifacts env row fs = Inr (without (artifact_paths env [row]) fs)"
  unfolding delete_artifacts_def using assms
  by (simp add: with_suffix_job_out job_out_nonempty unlink_if_exists_eq without_without
      artifact_paths_def insert_commute)

lemma clean_rows_recorded:
  assumes "list_all (\<lambda>r. output_file r = Some (job_out env (job_id r))) rows"
  shows "\<exists>conn'. clean_rows env rows conn fs = (Inr conn', without (artifact_paths env rows) fs)"
  using assms
proof (induction rows arbitrary: conn fs)
  case Nil
  show ?case by (simp add: artifact_paths_def without_def)
next
  case (Cons row rows)
  have r: "output_file row = Some (job_out env (job_id row))"
    and rs: "list_all (\<lambda>r. output_file r = Some (job_out env (job_id r))) rows"
    using Cons.prems by simp_all
  have u: "artifact_paths env rows \<union> artifact_paths env [row] = artifact_paths env (row # rows)"
    by (auto simp: artifact_paths_def)
  from Cons.IH[OF rs, of "delete_job_rows (job_id row) conn" "without (artifact_paths env [row]) fs"]
  show ?case by (simp add: delete_artifacts_recorded[OF r] without_without u)
qed

lemma drop_desc:
  assumes "sorted_wrt (\<lambda>a b. f b < (f a :: nat)) ys"
  shows "x \<in> set (drop n ys) \<longleftrightarrow> x \<in> set ys \<and> n \<le> length (filter (\<lambda>y. f x < f y) ys)"
  using assms
proof (induction ys arbitrary: n)
  case Nil
  show ?case by simp
next
  case (Cons y ys)
  have lt: "\<And>z. z \<in> set ys \<Longrightarrow> f z < f y" and s: "sorted_wrt (\<lambda>a b. f b < f a) ys"
    using Cons.prems by simp_all
  show ?case
  proof (cases n)
    case 0
    then show ?thesis by simp
  next
    case (Suc m)
    have none: "filter (\<lambda>z. f y < f z) ys = []"
      using lt by (auto simp: filter_empty_conv dest: less_asym)
    show ?thesis
    proof (cases "x \<in> set ys")
      case True
      then show ?thesis using Suc Cons.IH[OF s, of m] lt[OF True] by simp
    next
      case False
      then have "x \<notin> set (drop m ys)" using in_set_dropD by fast
      then show ?thesis using Suc False none by auto
    qed
  qed
qed

lemma desc_sorted:
  assumes "distinct (map f xs)"
  shows "sorted_wrt (\<lambda>a b. f b < (f a :: nat)) (rev (sort_key f xs))"
proof -
  have "distinct (map f (sort_key f xs))"
    using assms by (metis distinct_map distinct_sort set_sort mset_eq_imp_distinct_iff mset_map mset_sort)
  then have "sorted_wrt (<) (map f (sort_key f xs))"
    by (simp add: strict_sorted_iff)
  then show ?thesis by (simp add: sorted_wrt_rev sorted_wrt_map)
qed

lemma length_filter_perm: "mset xs = mset ys \<Longrightarrow> length (filter P xs) = length (filter P ys)"
  by (metis mset_filter size_mset)

lemma rows_to_clean_iff:
  assumes "distinct (map job_id (jobs conn))"
  shows "r \<in> set (rows_to_clean keep conn) \<longleftrightarrow>
           r \<in> set (jobs conn) \<and> terminal (status r) \<and>
           nat keep \<le> length (filter (\<lambda>r'. terminal (status r') \<and> job_id r < job_id r') (jobs conn))"
proof -
  let ?T = "filter (\<lambda>r. terminal (status r)) (jobs conn)"
  have d: "distinct (map job_id ?T)" using assms by (simp add: distinct_map_filter)
  have l: "length (filter (\<lambda>y. job_id r < job_id y) (rev (sort_key job_id ?T)))
         = length (filter (\<lambda>r'. terminal (status r') \<and> job_id r < job_id r') (jobs conn))"
    using length_filter_perm[of "rev (sort_key job_id ?T)" ?T "\<lambda>y. job_id r < job_id y"]
    by (simp add: conj_commute)
  show ?thesis
    unfolding rows_to_clean_def drop_desc[OF desc_sorted[OF d]] l by auto
qed

lemma rows_to_clean_subset: "set (rows_to_clean keep conn) \<subseteq> set (jobs conn)"
  using rows_to_clean_terminal by blast

lemma artifact_paths_iff:
  "job_out env k \<in> artifact_paths env rows \<longleftrightarrow> k \<in> job_id ` set rows"
  "job_err env k \<in> artifact_paths env rows \<longleftrightarrow> k \<in> job_id ` set rows"
  "watcher_path env k \<in> artifact_paths env rows \<longleftrightarrow> k \<in> job_id ` set rows"
  unfolding artifact_paths_def
  using job_paths_apart[of env] job_paths_apart[of env, symmetric]
  by (auto simp: job_paths_inj)

lemma job_out_root: "install_root env' = install_root env \<Longrightarrow> job_out env' k = job_out env k"
  by (simp add: job_out_def ARTIFACTS_DIR_def JOBS_DIR_def)

lemma recorded_iff:
  "recorded env conn \<longleftrightarrow> (\<forall>r\<in>set (jobs conn). output_file r = Some (job_out env (job_id r)))"
  unfolding recorded_def list_all_iff by simp

lemma exec_keeps_recorded:
  assumes "recorded env (db w)" and root: "install_root env' = install_root env"
  shows "recorded env (db (exec env' x w))"
proof (cases x)
  case (Submit cmd lbl)
  show ?thesis
  proof (cases "popen env' cmd")
    case None
    then show ?thesis using assms Submit submit_job_failed[OF None, of lbl w] by simp
  next
    case (Some p)
    show ?thesis using assms(1) job_out_root[OF root] unfolding Submit exec.simps recorded_iff
        submit_job_started(1)[OF Some]
      by auto
  qed
next
  case (Status k)
  then show ?thesis using assms(1)
    by (auto simp: recorded_iff get_job_status_store update_job_def mark_done_def split: option.splits)
next
  case (Result k tail)
  then show ?thesis using assms(1)
    by (auto simp: recorded_iff get_job_result_store get_job_status_store update_job_def mark_done_def
        split: option.splits)
next
  case (ListJobs limit)
  then show ?thesis using assms(1)
    by (auto simp: recorded_iff list_jobs_store fix_rows_def mark_done_def)
next
  case (Cancel k)
  then show ?thesis using assms(1)
    by (auto simp: recorded_iff cancel_job_store update_job_def mark_cancelled_def split: option.splits)
next
  case Notify
  then show ?thesis using assms(1) by (simp add: recorded_def)
next
  case (Clean keep)
  show ?thesis using assms(1) clean_jobs_db[of env' keep w] unfolding Clean exec.simps recorded_iff
    by auto
next
  case (WatcherExit wt)
  show ?thesis using assms(1) unfolding WatcherExit exec.simps recorded_iff
    by (auto simp: jobs_finalize update_job_def finalized_def)
qed

lemma run_keeps_recorded:
  assumes "recorded env (db w)" and "list_all (\<lambda>s. install_root (fst s) = install_root env) steps"
  shows "recorded env (db (run steps w))"
  using assms
proof (induction steps arbitrary: w)
  case Nil
  then show ?case by simp
next
  case (Cons s steps)
  obtain env' x where s: "s = (env', x)" by (cases s)
  have "recorded env (db (exec env' x w))"
    using exec_keeps_recorded[OF Cons.prems(1)] Cons.prems(2) s by simp
  then show ?case using Cons.IH Cons.prems(2) s by simp
qed

lemma recorded_empty: "recorded env empty_store"
  by (simp add: recorded_def empty_store_def)

lemma delete_artifacts_unrecorded:
  "output_file row = None \<Longrightarrow> delete_artifacts env row fs = Inr fs"
  by (simp add: delete_artifacts_def)

lemma w6_rows: "rows_to_clean 2 (db world6) = [jobs6 ! 3, jobs6 ! 1, jobs6 ! 0]"
  by (simp add: rows_to_clean_def world6_def jobs6_def mk_job_def terminal_def)

section \<open>Retention\<close>

text \<open>
  C8. In a store with distinct ids whose rows hold the output paths \<^verbatim>\<open>submit_job\<close>
  recorded (both hold of the empty store and are kept by every operation:
  \<open>exec_keeps_distinct\<close>, \<open>recorded_empty\<close>, \<open>run_keeps_recorded\<close>),
  \<^verbatim>\<open>clean_jobs(keep)\<close> raises nothing and
  \<^item> selects exactly the rows with a terminal status that have at least \<open>keep\<close> terminal
    rows with a larger id (none of them when \<open>keep\<close> is negative);
  \<^item> deletes exactly the selected rows from the jobs table, and the notifications of their
    job ids;
  \<^item> removes the output artifact, the error artifact and the watcher script of each
    selected row from the file system, and no other file;
  \<^item> leaves the running rows as they are, and the three files of every remaining row.
  A row without an output path, which no operation creates, is outside this statement: for
  such a row \<^verbatim>\<open>clean_jobs\<close> removes no file (\<open>delete_artifacts_unrecorded\<close>). The
  example that follows the theorem is the one of the specification: five terminal jobs, one
  running job, \<open>keep = 2\<close>.
\<close>

theorem clean_jobs_removes_old_terminal_jobs:
  assumes d: "distinct (map job_id (jobs (db w)))" and rec: "recorded env (db w)"
  shows "fst (clean_jobs env keep w) = None
   \<and> (\<forall>r. r \<in> set (rows_to_clean keep (db w)) \<longleftrightarrow>
            r \<in> set (jobs (db w)) \<and> terminal (status r) \<and>
            nat keep \<le> length (filter (\<lambda>r'. terminal (status r') \<and> job_id r < job_id r')
                                  (jobs (db w))))
   \<and> jobs (db (fst (snd (clean_jobs env keep w))))
       = filter (\<lambda>r. r \<notin> set (rows_to_clean keep (db w))) (jobs (db w))
   \<and> notifications (db (fst (snd (clean_jobs env keep w))))
       = filter (\<lambda>n. n_job_id n \<notin> job_id ` set (rows_to_clean keep (db w))) (notifications (db w))
   \<and> files (fst (snd (clean_jobs env keep w)))
       = without (artifact_paths env (rows_to_clean keep (db w))) (files w)
   \<and> filter (\<lambda>r. status r = ''running'') (jobs (db (fst (snd (clean_jobs env keep w)))))
       = filter (\<lambda>r. status r = ''running'') (jobs (db w))
   \<and> (\<forall>r \<in> set (jobs (db (fst (snd (clean_jobs env keep w))))).
         files (fst (snd (clean_jobs env keep w))) (job_out env (job_id r))
           = files w (job_out env (job_id r))
       \<and> files (fst (snd (clean_jobs env keep w))) (job_err env (job_id r))
           = files w (job_err env (job_id r))
       \<and> files (fst (snd (clean_jobs env keep w))) (watcher_path env (job_id r))
           = files w (watcher_path env (job_id r)))"
proof -
  let ?rows = "rows_to_clean keep (db w)"
  let ?w' = "fst (snd (clean_jobs env keep w))"
  have sub: "set ?rows \<subseteq> set (jobs (db w))" by (rule rows_to_clean_subset)
  have "list_all (\<lambda>r. output_file r = Some (job_out env (job_id r))) ?rows"
    using rec sub unfolding recorded_def list_all_iff by blast
  then obtain conn' where c: "clean_rows env ?rows (db w) (files w)
                                = (Inr conn', without (artifact_paths env ?rows) (files w))"
    using clean_rows_recorded by blast
  note st = clean_rows_store[OF c]
  have same: "job_id r \<notin> job_id ` set ?rows \<longleftrightarrow> r \<notin> set ?rows" if "r \<in> set (jobs (db w))" for r
    using distinct_same_id[OF d that] sub by blast
  have A: "fst (clean_jobs env keep w) = None"
    using c by (simp add: clean_jobs_def Let_def)
  have B: "jobs (db ?w') = filter (\<lambda>r. r \<notin> set ?rows) (jobs (db w))"
  proof (cases "?rows = []")
    case True
    then show ?thesis by (simp add: clean_jobs_def)
  next
    case False
    then have "jobs (db ?w') = filter (\<lambda>r. job_id r \<notin> job_id ` set ?rows) (jobs (db w))"
      using c st by (simp add: clean_jobs_def Let_def)
    then show ?thesis using same by (simp cong: filter_cong)
  qed
  have C: "notifications (db ?w')
       = filter (\<lambda>n. n_job_id n \<notin> job_id ` set ?rows) (notifications (db w))"
    using c st by (cases "?rows = []") (simp_all add: clean_jobs_def Let_def)
  have D: "files ?w' = without (artifact_paths env ?rows) (files w)"
    using c by (cases "?rows = []") (simp_all add: clean_jobs_def Let_def artifact_paths_def without_def)
  have E: "filter (\<lambda>r. status r = ''running'') (jobs (db ?w'))
       = filter (\<lambda>r. status r = ''running'') (jobs (db w))"
  proof -
    have "status r \<noteq> ''running''" if "r \<in> set ?rows" for r
      using rows_to_clean_terminal[OF that] by (auto simp: terminal_def)
    then show ?thesis unfolding B by (auto intro!: filter_cong)
  qed
  have F: "\<forall>r \<in> set (jobs (db ?w')).
         files ?w' (job_out env (job_id r)) = files w (job_out env (job_id r))
       \<and> files ?w' (job_err env (job_id r)) = files w (job_err env (job_id r))
       \<and> files ?w' (watcher_path env (job_id r)) = files w (watcher_path env (job_id r))"
    unfolding D B using same by (auto simp: without_def artifact_paths_iff)
  from A rows_to_clean_iff[OF d, of _ keep] B C D E F show ?thesis by blast
qed

theorem clean_jobs_removes_old_terminal_jobs_witness:
  "distinct (map job_id (jobs (db world6))) \<and> recorded env0 (db world6)
   \<and> map (\<lambda>r. (job_id r, status r)) (jobs (db world6))
       = [(1, ''done''), (2, ''cancelled''), (3, ''running''), (4, ''done''), (5, ''failed''), (6, ''done'')]
   \<and> fst (clean_jobs env0 2 world6) = None
   \<and> map job_id (jobs (db (fst (snd (clean_jobs env0 2 world6))))) = [3, 5, 6]
   \<and> map n_job_id (notifications (db (fst (snd (clean_jobs env0 2 world6))))) = [6]
   \<and> files (fst (snd (clean_jobs env0 2 world6))) (job_out env0 4) = None
   \<and> files (fst (snd (clean_jobs env0 2 world6))) (job_err env0 2) = None
   \<and> files (fst (snd (clean_jobs env0 2 world6))) (watcher_path env0 1) = None
   \<and> files (fst (snd (clean_jobs env0 2 world6))) (job_out env0 3) = Some (Text ''output'')
   \<and> files (fst (snd (clean_jobs env0 2 world6))) (job_err env0 5) = Some (Text ''output'')
   \<and> files (fst (snd (clean_jobs env0 2 world6))) (watcher_path env0 6) = Some (Text ''output'')"
proof -
  have d: "distinct (map job_id (jobs (db world6)))"
    by (simp add: world6_def jobs6_def mk_job_def)
  have r: "recorded env0 (db world6)"
    by (simp add: recorded_def world6_def jobs6_def mk_job_def)
  have s: "map (\<lambda>r. (job_id r, status r)) (jobs (db world6))
       = [(1, ''done''), (2, ''cancelled''), (3, ''running''), (4, ''done''), (5, ''failed''), (6, ''done'')]"
    by (simp add: world6_def jobs6_def mk_job_def)
  note t = clean_jobs_removes_old_terminal_jobs[OF d r, of 2]
  have ids: "job_id ` set (rows_to_clean 2 (db world6)) = {4, 2, 1}"
    unfolding w6_rows by (simp add: jobs6_def mk_job_def)
  have a: "fst (clean_jobs env0 2 world6) = None" using t by blast
  have b: "map job_id (jobs (db (fst (snd (clean_jobs env0 2 world6))))) = [3, 5, 6]"
    using t[THEN conjunct2, THEN conjunct2, THEN conjunct1] unfolding w6_rows
    by (simp add: world6_def jobs6_def mk_job_def)
  have c: "map n_job_id (notifications (db (fst (snd (clean_jobs env0 2 world6))))) = [6]"
    using t[THEN conjunct2, THEN conjunct2, THEN conjunct2, THEN conjunct1] unfolding ids
    by (simp add: world6_def mk_note_def)
  have f: "files (fst (snd (clean_jobs env0 2 world6)))
             = without (artifact_paths env0 (rows_to_clean 2 (db world6))) (files world6)"
    using t by blast
  have all: "job_id ` set jobs6 = {1, 2, 3, 4, 5, 6}"
    by (simp add: jobs6_def mk_job_def)
  have fw: "files world6 p = (if p \<in> artifact_paths env0 jobs6 then Some (Text ''output'') else None)" for p
    by (simp add: world6_def)
  have g: "files (fst (snd (clean_jobs env0 2 world6))) (job_out env0 4) = None"
    "files (fst (snd (clean_jobs env0 2 world6))) (job_err env0 2) = None"
    "files (fst (snd (clean_jobs env0 2 world6))) (watcher_path env0 1) = None"
    "files (fst (snd (clean_jobs env0 2 world6))) (job_out env0 3) = Some (Text ''output'')"
    "files (fst (snd (clean_jobs env0 2 world6))) (job_err env0 5) = Some (Text ''output'')"
    "files (fst (snd (clean_jobs env0 2 world6))) (watcher_path env0 6) = Some (Text ''output'')"
    unfolding f by (simp_all add: without_def artifact_paths_iff ids fw all)
  from d r s a b c g show ?thesis by blast
qed

section \<open>Admission\<close>

lemma submit_job_adds_running_row:
  assumes "popen env cmd = Some p"
  shows "running_count (db (fst (snd (submit_job env cmd lbl w)))) = Suc (running_count (db w))"
  unfolding running_count_def submit_job_started(1)[OF assms] by simp

text \<open>
  C1. \<^verbatim>\<open>guard_job\<close>, the guard for job submission of \<^verbatim>\<open>guard.py\<close>, denies a
  submission when five jobs are running and the limit is five, with the reason
  "Too many concurrent jobs (5/5)". \<^verbatim>\<open>submit_job\<close> never asks it: no code of
  \<^verbatim>\<open>jobs.py\<close> calls the guard. In that same state the submission returns the new job
  id 6, and the store holds six rows, all running.
\<close>

theorem submit_job_bypasses_quota:
  "running_count (db world5) = 5
   \<and> max_concurrent_jobs rules0 = 5
   \<and> fst (guard_job rules0 ''sleep 60'' (Some (db world5))) = False
   \<and> fst (snd (guard_job rules0 ''sleep 60'' (Some (db world5)))) = ''Too many concurrent jobs (5/5)''
   \<and> fst (submit_job env_live ''sleep 60'' None world5) = Inr 6
   \<and> length (jobs (db (fst (snd (submit_job env_live ''sleep 60'' None world5))))) = 6
   \<and> running_count (db (fst (snd (submit_job env_live ''sleep 60'' None world5)))) = 6"
proof -
  have rc: "running_count (db world5) = 5"
    by (simp add: running_count_def world5_def mk_world_def mk_job_def)
  have g: "guard_job rules0 ''sleep 60'' (Some (db world5))
             = (False, ''Too many concurrent jobs (5/5)'',
                (''blocked'', Some ''Too many concurrent jobs (5/5)''))"
    unfolding guard_job_def by (simp add: rc rules0_def str_nat_digit str_int_def)
  have p: "popen env_live ''sleep 60'' = Some 4242" by (simp add: env_live_simps)
  have n: "new_job_id world5 = 6"
    by (simp add: new_job_id_def next_rowid_def world5_def mk_world_def mk_job_def)
  have len: "length (jobs (db world5)) = 5" by (simp add: world5_def mk_world_def)
  show ?thesis
    using rc g submit_job_started(5)[OF p, of None world5] n
      submit_job_adds_running_row[OF p, of None world5] submit_job_started(1)[OF p, of None world5] len
    by (simp add: rules0_def)
qed

end
